theory Spec2Isabelle
  imports Complex_Main "HOL-Library.Word" "HOL-Library.Signed_Division" "HOL-Library.Log_Nat"
begin

section \<open>The ctlstore sidecar: data model\<close>

text \<open>
  The development follows \<^verbatim>\<open>pkg/sidecar/sidecar.go\<close>. A Go \<^verbatim>\<open>[]byte\<close> is a list of bytes;
  where the code tells a nil slice from an empty one (\<^verbatim>\<open>k.Binary != nil\<close>) the slice is an
  option, \<open>None\<close> being nil and \<open>Some []\<close> the empty slice that is not nil (what
  \<^verbatim>\<open>encoding/json\<close> stores when the field \<^verbatim>\<open>Binary\<close> of the body is the empty string).
\<close>

type_synonym byte = "8 word"

text \<open>
  Finite \<^verbatim>\<open>float64\<close> values are the rationals they denote; the arithmetic that produces them
  rounds (see \<open>float64_round\<close> below).
\<close>

type_synonym float64 = rat

text \<open>
  A Go \<^verbatim>\<open>interface{}\<close> value, as far as the sidecar meets them: nil, what
  \<^verbatim>\<open>encoding/json\<close> decodes into an empty interface, the integers and byte slices a store
  row holds, \<^verbatim>\<open>[]interface{}\<close> and \<^verbatim>\<open>map[string]interface{}\<close>.
\<close>

datatype dyn =
    DNil
  | DBool bool
  | DInt int
  | DFloat float64
  | DStr string
  | DBytes "byte list"
  | DSlice "dyn list"
  | DMap "string \<Rightarrow> dyn option"

text \<open>\<^verbatim>\<open>Key\<close>: a primary key segment, with its two fields.\<close>

record Key =
  Value :: dyn
  Binary :: "byte list option"

record ReadRequest =
  Key :: "Key list"

text \<open>Go's \<^verbatim>\<open>len\<close> of a slice: a nil slice has length 0.\<close>

definition len_bytes :: "byte list option \<Rightarrow> nat" where
  "len_bytes b = (case b of None \<Rightarrow> 0 | Some bs \<Rightarrow> length bs)"

section \<open>The key codec\<close>

text \<open>
  \<^verbatim>\<open>Key.ToValue\<close>: the switch has one case, \<^verbatim>\<open>k.Binary != nil\<close>, and a default.
\<close>

definition ToValue :: "Key \<Rightarrow> dyn" where
  "ToValue k = (case Binary k of Some b \<Rightarrow> DBytes b | None \<Rightarrow> Value k)"

text \<open>
  \<^verbatim>\<open>keysToInterface\<close>: the range loop appends to \<^verbatim>\<open>res\<close>, which starts as the nil slice
  (the empty list: the result is only ever spread into a variadic call).
\<close>

fun keysToInterface_loop :: "Key list \<Rightarrow> dyn list \<Rightarrow> dyn list" where
  "keysToInterface_loop [] res = res"
| "keysToInterface_loop (k # keys) res = keysToInterface_loop keys (res @ [ToValue k])"

definition keysToInterface :: "Key list \<Rightarrow> dyn list" where
  "keysToInterface keys = keysToInterface_loop keys []"

section \<open>Errors\<close>

text \<open>
  A Go \<^verbatim>\<open>error\<close> value, by where it was made: \<open>Foreign m\<close> is an error with text \<open>m\<close> that a
  collaborator returned (the Reader, the row cursor, \<^verbatim>\<open>encoding/json\<close>); \<open>Errorf m\<close> is one
  the sidecar made itself with \<^verbatim>\<open>errors.Errorf\<close>; \<open>Wrap e m\<close> is \<^verbatim>\<open>errors.Wrap(e, m)\<close> of
  an error \<open>e\<close> that is not nil.
\<close>

datatype error = Foreign string | Errorf string | Wrap error string

text \<open>The \<^verbatim>\<open>Error()\<close> text; a wrapped error prints its message, a colon and its cause.\<close>

fun Error :: "error \<Rightarrow> string" where
  "Error (Foreign m) = m"
| "Error (Errorf m) = m"
| "Error (Wrap e m) = m @ '': '' @ Error e"

text \<open>\<^verbatim>\<open>errors.Wrap\<close> returns nil for a nil error (\<^verbatim>\<open>healthcheck\<close> relies on it).\<close>

definition errors_Wrap :: "error option \<Rightarrow> string \<Rightarrow> error option" where
  "errors_Wrap err msg = (case err of None \<Rightarrow> None | Some e \<Rightarrow> Some (Wrap e msg))"

text \<open>The verb \<^verbatim>\<open>%d\<close> of \<^verbatim>\<open>fmt\<close>: an integer in decimal, with a minus sign when negative.\<close>

fun utoa :: "nat \<Rightarrow> string" where
  "utoa n = (if n < 10 then [''0123456789'' ! n]
             else utoa (n div 10) @ [''0123456789'' ! (n mod 10)])"

declare utoa.simps [simp del]

definition itoa :: "int \<Rightarrow> string" where
  "itoa i = (if i < 0 then CHR ''-'' # utoa (nat (- i)) else utoa (nat i))"

text \<open>The error \<^verbatim>\<open>errors.Errorf\<close> makes from the format \<^verbatim>\<open>max row count (%d) exceeded\<close>.\<close>

definition max_row_count_exceeded :: "int \<Rightarrow> error" where
  "max_row_count_exceeded n = Errorf (''max row count ('' @ itoa n @ '') exceeded'')"

text \<open>Reading a decimal numeral back, to say what \<open>itoa\<close> prints.\<close>

definition decimal_value :: "string \<Rightarrow> nat" where
  "decimal_value ds = foldl (\<lambda>a c. 10 * a + (of_char c - 48)) 0 ds"

section \<open>The response writer\<close>

text \<open>
  What \<^verbatim>\<open>net/http\<close> does with an \<^verbatim>\<open>http.ResponseWriter\<close>, as far as the handlers use it.
  \<open>header\<close> is the map \<^verbatim>\<open>w.Header()\<close> returns; \<open>wrote\<close> is the status line once it is
  committed, with the headers as they were at that moment; \<open>body\<close> is what has been
  written, one chunk per \<^verbatim>\<open>Write\<close>. A chunk \<open>Json v\<close> stands for the JSON text of \<open>v\<close>
  and its final newline, as \<^verbatim>\<open>Encoder.Encode\<close> writes them; \<open>Text t\<close> is the text \<open>t\<close>.
  A write that fails on the connection is not modelled.
\<close>

datatype chunk = Json dyn | Text string

record ResponseWriter =
  header :: "string \<Rightarrow> string option"
  wrote :: "(nat \<times> (string \<Rightarrow> string option)) option"
  body :: "chunk list"

definition new_ResponseWriter :: ResponseWriter where
  "new_ResponseWriter = \<lparr>header = Map.empty, wrote = None, body = []\<rparr>"

definition Header_Set :: "ResponseWriter \<Rightarrow> string \<Rightarrow> string \<Rightarrow> ResponseWriter" where
  "Header_Set w k v = w\<lparr>header := (header w)(k \<mapsto> v)\<rparr>"

text \<open>\<^verbatim>\<open>WriteHeader\<close> commits the status once; a second call changes nothing.\<close>

definition WriteHeader :: "ResponseWriter \<Rightarrow> nat \<Rightarrow> ResponseWriter" where
  "WriteHeader w code =
     (case wrote w of None \<Rightarrow> w\<lparr>wrote := Some (code, header w)\<rparr> | Some c \<Rightarrow> w)"

text \<open>\<^verbatim>\<open>Write\<close> commits status 200 first if nothing is committed yet.\<close>

definition Write :: "ResponseWriter \<Rightarrow> chunk \<Rightarrow> ResponseWriter" where
  "Write w c = (let w' = WriteHeader w 200 in w'\<lparr>body := body w' @ [c]\<rparr>)"

text \<open>\<^verbatim>\<open>http.Error\<close>: two headers, the status, and the message with a newline.\<close>

definition http_Error :: "ResponseWriter \<Rightarrow> string \<Rightarrow> nat \<Rightarrow> ResponseWriter" where
  "http_Error w msg code =
     (let w1 = Header_Set w ''Content-Type'' ''text/plain; charset=utf-8'';
          w2 = Header_Set w1 ''X-Content-Type-Options'' ''nosniff'';
          w3 = WriteHeader w2 code
      in Write w3 (Text (msg @ [CHR 0x0A])))"

text \<open>
  The two things the handlers ask of \<^verbatim>\<open>encoding/json\<close>: decoding a request body into a
  \<^verbatim>\<open>ReadRequest\<close>, which may fail, and encoding a value, which fails on a value JSON has
  no text for. Both are parameters of the handlers. \<open>Unmarshal js\<close> stands for the whole of
  decoding a body; what the code's decoder does with a body is modelled further down as
  \<open>Decode\<close>, and the properties that depend on it take \<open>Unmarshal js = Decode d\<close>.
\<close>

record encoding_json =
  Unmarshal :: "string \<Rightarrow> string + ReadRequest"
  MarshalError :: "dyn \<Rightarrow> string option"

text \<open>
  \<^verbatim>\<open>json.NewEncoder(w).Encode(v)\<close>: the value is encoded in full first; an encoding error
  is returned with nothing written, otherwise the text goes out in one \<^verbatim>\<open>Write\<close>.
\<close>

definition Encode :: "encoding_json \<Rightarrow> ResponseWriter \<Rightarrow> dyn \<Rightarrow> error option \<times> ResponseWriter" where
  "Encode js w v =
     (case MarshalError js v of
        Some e \<Rightarrow> (Some (Foreign e), w)
      | None \<Rightarrow> (None, Write w (Json v)))"

text \<open>
  The response the client gets when the handler has returned: a handler that committed
  no status gets 200 from the server.
\<close>

record Response =
  StatusCode :: nat
  RespHeader :: "string \<Rightarrow> string option"
  RespBody :: "chunk list"

definition finish :: "ResponseWriter \<Rightarrow> Response" where
  "finish w =
     (case wrote w of
        None \<Rightarrow> \<lparr>StatusCode = 200, RespHeader = header w, RespBody = body w\<rparr>
      | Some (code, h) \<Rightarrow> \<lparr>StatusCode = code, RespHeader = h, RespBody = body w\<rparr>)"

section \<open>Durations and their seconds\<close>

text \<open>
  \<open>float64_round\<close> is the rounding every \<^verbatim>\<open>float64\<close> operation ends with: to the nearest
  value with a 53-bit significand, ties to the even one, with the exponent floor of the
  subnormal range. Results beyond the largest finite value do not occur below and are not
  modelled.
\<close>

definition pow2 :: "int \<Rightarrow> rat" where
  "pow2 e = (if 0 \<le> e then 2 ^ nat e else 1 / 2 ^ nat (- e))"

definition round_half_even :: "rat \<Rightarrow> int" where
  "round_half_even q =
     (let f = \<lfloor>q\<rfloor>; r = q - of_int f
      in if r < 1 / 2 then f else if 1 / 2 < r then f + 1 else if even f then f else f + 1)"

definition float64_round :: "rat \<Rightarrow> float64" where
  "float64_round x =
     (if x = 0 then 0
      else let (p, q) = quotient_of \<bar>x\<bar>;
               b = bitlen p - bitlen q;
               e = max ((if pow2 b \<le> \<bar>x\<bar> then b else b - 1) - 52) (- 1074)
           in sgn x * of_int (round_half_even (\<bar>x\<bar> / pow2 e)) * pow2 e)"

text \<open>
  \<^verbatim>\<open>time.Duration\<close> is an \<^verbatim>\<open>int64\<close> count of nanoseconds. \<^verbatim>\<open>Duration.Seconds\<close> is
  \<^verbatim>\<open>sec := d / Second; nsec := d % Second; return float64(sec) + float64(nsec)/1e9\<close>,
  with Go's truncating division and remainder.
\<close>

type_synonym Duration = "64 word"

definition Seconds :: "Duration \<Rightarrow> float64" where
  "Seconds d =
     (let sec = sint d sdiv 1000000000;
          nsec = sint d smod 1000000000
      in float64_round (float64_round (of_int sec)
           + float64_round (float64_round (of_int nsec) / 1000000000)))"

section \<open>The Reader and its row cursor\<close>

text \<open>
  Modelled from the spec: the row cursor \<^verbatim>\<open>ctlstore.Rows\<close>, whose code is not in the
  sources at hand: a lazy, finite, forward-only, closeable sequence of Row. \<open>scans\<close> holds,
  for each time \<^verbatim>\<open>Next\<close> answers true, what the \<^verbatim>\<open>Scan\<close> that follows does: it fails with
  an error text, or fills the map it is given with a row. \<open>iter_err\<close> is what \<^verbatim>\<open>Err\<close>
  reports once \<^verbatim>\<open>Next\<close> has answered false.
\<close>

type_synonym row = "string \<Rightarrow> dyn option"

record Rows =
  scans :: "(string + row) list"
  iter_err :: "string option"

text \<open>
  The \<^verbatim>\<open>Reader\<close> interface. Each method answers with an error text or with its results;
  for \<^verbatim>\<open>GetRowByKey\<close> these are \<^verbatim>\<open>found\<close> and the contents of the map \<^verbatim>\<open>out\<close> after the
  call. The context argument is passed on unchanged and left out.
\<close>

record Reader =
  GetRowByKey :: "string \<Rightarrow> string \<Rightarrow> dyn list \<Rightarrow> string + (bool \<times> row)"
  GetRowsByKeyPrefix :: "string \<Rightarrow> string \<Rightarrow> dyn list \<Rightarrow> string + Rows"
  GetLedgerLatency :: "string + Duration"

section \<open>The sidecar\<close>

record Config =
  BindAddr :: string
  Reader :: Reader
  MaxRows :: int

text \<open>
  \<^verbatim>\<open>maxRows\<close> is a Go \<^verbatim>\<open>int\<close>; the code only compares it, so its value is taken as an
  integer. The field \<^verbatim>\<open>handler\<close> is the router, given below as \<open>route_handler\<close>.
\<close>

record Sidecar =
  bindAddr :: string
  reader :: Reader
  maxRows :: int

definition New :: "Config \<Rightarrow> Sidecar" where
  "New config = \<lparr>bindAddr = BindAddr config, reader = Reader config, maxRows = MaxRows config\<rparr>"

text \<open>
  A request as the handlers read it: the path variables the router extracted
  (\<^verbatim>\<open>mux.Vars\<close>), the body, the URL and the user agent.
\<close>

record Request =
  vars :: "string \<Rightarrow> string option"
  Body :: string
  URL :: string
  UserAgent :: string

text \<open>Indexing a Go map of strings: a missing key reads as the empty string.\<close>

definition index_vars :: "(string \<Rightarrow> string option) \<Rightarrow> string \<Rightarrow> string" where
  "index_vars m k = (case m k of None \<Rightarrow> [] | Some v \<Rightarrow> v)"

text \<open>
  What a handler does besides writing the response, in the order it happens: the calls
  to the Reader, the calls on the row cursor, the latency observations
  (\<^verbatim>\<open>stats.Observe\<close>, with operation and user agent; the elapsed time is left out) and the
  error log of \<^verbatim>\<open>handleErr\<close>.
\<close>

datatype event =
    CallGetRowByKey string string "dyn list"
  | CallGetRowsByKeyPrefix string string "dyn list"
  | CallGetLedgerLatency
  | RowsNext bool
  | RowsScan
  | RowsErr
  | RowsClose
  | Observe string string
  | Log error string

type_synonym handler = "ResponseWriter \<Rightarrow> Request \<Rightarrow> error option \<times> ResponseWriter \<times> event list"

section \<open>The handlers\<close>

text \<open>
  Each handler returns its error (\<open>None\<close> for nil), the response writer as it leaves it,
  and its events. A deferred call runs when the handler returns, so its event comes last;
  \<^verbatim>\<open>defer s.observeAPILatency(r, op)()\<close> is the first deferral of every handler and so the
  last to run.
\<close>

definition getLedgerLatency :: "encoding_json \<Rightarrow> Sidecar \<Rightarrow> handler" where
  "getLedgerLatency js s w r =
     (let deferred = [Observe ''get-ledger-latency'' (UserAgent r)]
      in case GetLedgerLatency (reader s) of
           Inl e \<Rightarrow>
             (Some (Wrap (Foreign e) ''get ledger latency''), w, CallGetLedgerLatency # deferred)
         | Inr duration \<Rightarrow>
             let res = DMap [''value'' \<mapsto> DFloat (Seconds duration), ''unit'' \<mapsto> DStr ''seconds''];
                 (err, w') = Encode js w res
             in (err, w', CallGetLedgerLatency # deferred))"

definition healthcheck :: "Sidecar \<Rightarrow> handler" where
  "healthcheck s w r =
     (let deferred = [Observe ''healthcheck'' (UserAgent r)];
          err = (case GetLedgerLatency (reader s) of Inl e \<Rightarrow> Some (Foreign e) | Inr d \<Rightarrow> None)
      in (errors_Wrap err ''healthcheck'', w, CallGetLedgerLatency # deferred))"

definition ping :: "Sidecar \<Rightarrow> handler" where
  "ping s w r =
     (let deferred = [Observe ''ping'' (UserAgent r)];
          (err, w', evs) = healthcheck s w r
      in (err, w', evs @ deferred))"

text \<open>
  The loop of \<^verbatim>\<open>getRowsByKeyPrefix\<close> over the cursor: \<^verbatim>\<open>Next\<close>, \<^verbatim>\<open>Scan\<close> into a fresh map,
  append, and only then the test against \<^verbatim>\<open>maxRows\<close>. It ends with the error to return
  or, when \<^verbatim>\<open>Next\<close> answers false, with the rows gathered.
\<close>

fun getRowsByKeyPrefix_loop ::
  "int \<Rightarrow> (string + row) list \<Rightarrow> dyn list \<Rightarrow> (error + dyn list) \<times> event list" where
  "getRowsByKeyPrefix_loop mr [] res = (Inr res, [RowsNext False])"
| "getRowsByKeyPrefix_loop mr (sc # rest) res =
     (case sc of
        Inl e \<Rightarrow> (Inl (Wrap (Foreign e) ''scan''), [RowsNext True, RowsScan])
      | Inr out \<Rightarrow>
          let res' = res @ [DMap out]
          in if 0 < mr \<and> mr < int (length res')
             then (Inl (max_row_count_exceeded mr), [RowsNext True, RowsScan])
             else let (result, evs) = getRowsByKeyPrefix_loop mr rest res'
                  in (result, RowsNext True # RowsScan # evs))"

definition getRowsByKeyPrefix :: "encoding_json \<Rightarrow> Sidecar \<Rightarrow> handler" where
  "getRowsByKeyPrefix js s w r =
     (let deferred = [Observe ''get-rows-by-key-prefix'' (UserAgent r)];
          family = index_vars (vars r) ''familyName'';
          table = index_vars (vars r) ''tableName''
      in case Unmarshal js (Body r) of
           Inl e \<Rightarrow> (Some (Wrap (Foreign e) ''decode body''), w, deferred)
         | Inr rr \<Rightarrow>
             let key = keysToInterface (Key rr);
                 call = CallGetRowsByKeyPrefix family table key
             in (case GetRowsByKeyPrefix (reader s) family table key of
                   Inl e \<Rightarrow> (Some (Foreign e), w, call # deferred)
                 | Inr rows \<Rightarrow>
                     let deferred = RowsClose # deferred
                     in (case getRowsByKeyPrefix_loop (maxRows s) (scans rows) [] of
                           (Inl e, evs) \<Rightarrow> (Some e, w, call # evs @ deferred)
                         | (Inr res, evs) \<Rightarrow>
                             (case iter_err rows of
                                Some e \<Rightarrow> (Some (Foreign e), w, call # evs @ RowsErr # deferred)
                              | None \<Rightarrow>
                                  let (err, w') = Encode js w (DSlice res)
                                  in (err, w', call # evs @ RowsErr # deferred)))))"

definition getRowByKey :: "encoding_json \<Rightarrow> Sidecar \<Rightarrow> handler" where
  "getRowByKey js s w r =
     (let deferred = [Observe ''get-row-by-key'' (UserAgent r)];
          family = index_vars (vars r) ''familyName'';
          table = index_vars (vars r) ''tableName''
      in case Unmarshal js (Body r) of
           Inl e \<Rightarrow> (Some (Wrap (Foreign e) ''decode body''), w, deferred)
         | Inr rr \<Rightarrow>
             let key = keysToInterface (Key rr);
                 call = CallGetRowByKey family table key
             in (case GetRowByKey (reader s) family table key of
                   Inl e \<Rightarrow> (Some (Foreign e), w, call # deferred)
                 | Inr (found, out) \<Rightarrow>
                     if \<not> found
                     then (None, WriteHeader (Header_Set w ''X-Ctlstore'' ''Not Found'') 404,
                           call # deferred)
                     else let (err, w') = Encode js w (DMap out)
                          in (err, w', call # deferred)))"

section \<open>The error translator and the routes\<close>

text \<open>
  \<^verbatim>\<open>handleErr\<close> in \<^verbatim>\<open>New\<close>: run the handler; on an error, log it with the URL and answer
  with \<^verbatim>\<open>http.Error\<close> and status 500.
\<close>

definition handleErr :: "handler \<Rightarrow> ResponseWriter \<Rightarrow> Request \<Rightarrow> ResponseWriter \<times> event list" where
  "handleErr fn w r =
     (let (err, w', evs) = fn w r
      in case err of
           None \<Rightarrow> (w', evs)
         | Some e \<Rightarrow> (http_Error w' (Error e) 500, evs @ [Log e (URL r)]))"

text \<open>
  The five routes \<^verbatim>\<open>New\<close> registers, in its order: two for POST, three for GET. Matching a
  request against them is the router's work; a request that matches none never reaches
  the sidecar's handlers.
\<close>

datatype route =
    POST_get_row_by_key
  | POST_get_rows_by_key_prefix
  | GET_get_ledger_latency
  | GET_healthcheck
  | GET_ping

fun route_handler ::
  "encoding_json \<Rightarrow> Sidecar \<Rightarrow> route \<Rightarrow> ResponseWriter \<Rightarrow> Request \<Rightarrow> ResponseWriter \<times> event list" where
  "route_handler js s POST_get_row_by_key = handleErr (getRowByKey js s)"
| "route_handler js s POST_get_rows_by_key_prefix = handleErr (getRowsByKeyPrefix js s)"
| "route_handler js s GET_get_ledger_latency = handleErr (getLedgerLatency js s)"
| "route_handler js s GET_healthcheck = handleErr (healthcheck s)"
| "route_handler js s GET_ping = handleErr (ping s)"

text \<open>
  \<^verbatim>\<open>ServeHTTP\<close> for a request that matched a route: the handler runs on a fresh response
  writer, and the server completes the response.
\<close>

definition ServeHTTP :: "encoding_json \<Rightarrow> Sidecar \<Rightarrow> route \<Rightarrow> Request \<Rightarrow> Response \<times> event list" where
  "ServeHTTP js s rt r =
     (let (w, evs) = route_handler js s rt new_ResponseWriter r in (finish w, evs))"


section \<open>Reading the request body\<close>

text \<open>
  The handlers decode with \<^verbatim>\<open>json.NewDecoder(r.Body).Decode(&rr)\<close>. A \<^verbatim>\<open>Decoder\<close> reads one
  JSON value from the front of the stream and leaves the rest unread; it finds the end of
  that value with the scanner of \<^verbatim>\<open>encoding/json\<close>, a state machine that is fed one byte
  at a time. The scanner is modelled state by state: \<open>step\<close> names the current step
  function, \<open>parseState\<close> is the stack of open composite values (its head is the innermost),
  \<open>endTop\<close> tells that the top-level value has been completed, and \<open>err\<close> holds the
  offending byte and the context of a syntax error.
\<close>

datatype step_fn =
    StateBeginValueOrEmpty | StateBeginValue | StateBeginStringOrEmpty | StateBeginString
  | StateEndValue | StateEndTop
  | StateInString | StateInStringEsc
  | StateInStringEscU | StateInStringEscU1 | StateInStringEscU12 | StateInStringEscU123
  | StateNeg | State1 | State0 | StateDot | StateDot0 | StateE | StateESign | StateE0
  | StateT | StateTr | StateTru
  | StateF | StateFa | StateFal | StateFals
  | StateN | StateNu | StateNul
  | StateError

datatype parse_state = parseObjectKey | parseObjectValue | parseArrayValue

datatype opcode =
    scanContinue | scanBeginLiteral | scanBeginObject | scanObjectKey | scanObjectValue
  | scanEndObject | scanBeginArray | scanArrayValue | scanEndArray | scanSkipSpace
  | scanEnd | scanError

record scanner =
  step :: step_fn
  endTop :: bool
  parseState :: "parse_state list"
  err :: "(char \<times> string) option"

definition scanner_reset :: scanner where
  "scanner_reset = \<lparr>step = StateBeginValue, endTop = False, parseState = [], err = None\<rparr>"

definition maxNestingDepth :: nat where
  "maxNestingDepth = 10000"

definition isSpace :: "char \<Rightarrow> bool" where
  "isSpace c = (c = CHR '' '' \<or> c = CHR 0x09 \<or> c = CHR 0x0D \<or> c = CHR 0x0A)"

definition isDigit :: "char \<Rightarrow> bool" where
  "isDigit c = (c \<in> set ''0123456789'')"

definition isHex :: "char \<Rightarrow> bool" where
  "isHex c = (c \<in> set ''0123456789abcdefABCDEF'')"

definition isDigit1to9 :: "char \<Rightarrow> bool" where
  "isDigit1to9 c = (c \<in> set ''123456789'')"

text \<open>The bytes that may follow a backslash in a string, \<^verbatim>\<open>u\<close> apart.\<close>

definition isEscape :: "char \<Rightarrow> bool" where
  "isEscape c = (c \<in> set ''bfnrt/'' \<or> c = CHR 0x5C \<or> c = CHR 0x22)"

text \<open>\<^verbatim>\<open>s.error(c, context)\<close>: the scanner stops for good.\<close>

definition scanner_error :: "scanner \<Rightarrow> char \<Rightarrow> string \<Rightarrow> opcode \<times> scanner" where
  "scanner_error s c ctx = (scanError, s\<lparr>step := StateError, err := Some (c, ctx)\<rparr>)"

definition pushParseState :: "scanner \<Rightarrow> char \<Rightarrow> parse_state \<Rightarrow> opcode \<Rightarrow> opcode \<times> scanner" where
  "pushParseState s c newParseState successState =
     (let s' = s\<lparr>parseState := newParseState # parseState s\<rparr>
      in if length (parseState s') \<le> maxNestingDepth then (successState, s')
         else scanner_error s' c ''exceeded max depth'')"

definition popParseState :: "scanner \<Rightarrow> scanner" where
  "popParseState s =
     (let ps = tl (parseState s)
      in if ps = [] then s\<lparr>parseState := ps, step := StateEndTop, endTop := True\<rparr>
         else s\<lparr>parseState := ps, step := StateEndValue\<rparr>)"

text \<open>
  \<^verbatim>\<open>stateEndTop\<close> answers \<^verbatim>\<open>scanEnd\<close> whatever the byte is: a byte that is not white space
  after the top-level value is only complained about on the next step.
\<close>

definition stateEndTop :: "scanner \<Rightarrow> char \<Rightarrow> opcode \<times> scanner" where
  "stateEndTop s c =
     (if \<not> isSpace c then (scanEnd, snd (scanner_error s c ''after top-level value''))
      else (scanEnd, s))"

definition stateEndValue :: "scanner \<Rightarrow> char \<Rightarrow> opcode \<times> scanner" where
  "stateEndValue s c =
     (case parseState s of
        [] \<Rightarrow> stateEndTop (s\<lparr>step := StateEndTop, endTop := True\<rparr>) c
      | ps # rest \<Rightarrow>
          if isSpace c then (scanSkipSpace, s\<lparr>step := StateEndValue\<rparr>)
          else (case ps of
                  parseObjectKey \<Rightarrow>
                    if c = CHR '':''
                    then (scanObjectKey, s\<lparr>parseState := parseObjectValue # rest, step := StateBeginValue\<rparr>)
                    else scanner_error s c ''after object key''
                | parseObjectValue \<Rightarrow>
                    if c = CHR '',''
                    then (scanObjectValue, s\<lparr>parseState := parseObjectKey # rest, step := StateBeginString\<rparr>)
                    else if c = CHR ''}'' then (scanEndObject, popParseState s)
                    else scanner_error s c ''after object key:value pair''
                | parseArrayValue \<Rightarrow>
                    if c = CHR '','' then (scanArrayValue, s\<lparr>step := StateBeginValue\<rparr>)
                    else if c = CHR '']'' then (scanEndArray, popParseState s)
                    else scanner_error s c ''after array element''))"

definition stateBeginString :: "scanner \<Rightarrow> char \<Rightarrow> opcode \<times> scanner" where
  "stateBeginString s c =
     (if isSpace c then (scanSkipSpace, s)
      else if c = CHR 0x22 then (scanBeginLiteral, s\<lparr>step := StateInString\<rparr>)
      else scanner_error s c ''looking for beginning of object key string'')"

definition stateBeginValue :: "scanner \<Rightarrow> char \<Rightarrow> opcode \<times> scanner" where
  "stateBeginValue s c =
     (if isSpace c then (scanSkipSpace, s)
      else if c = CHR ''{''
        then pushParseState (s\<lparr>step := StateBeginStringOrEmpty\<rparr>) c parseObjectKey scanBeginObject
      else if c = CHR ''[''
        then pushParseState (s\<lparr>step := StateBeginValueOrEmpty\<rparr>) c parseArrayValue scanBeginArray
      else if c = CHR 0x22 then (scanBeginLiteral, s\<lparr>step := StateInString\<rparr>)
      else if c = CHR ''-'' then (scanBeginLiteral, s\<lparr>step := StateNeg\<rparr>)
      else if c = CHR ''0'' then (scanBeginLiteral, s\<lparr>step := State0\<rparr>)
      else if c = CHR ''t'' then (scanBeginLiteral, s\<lparr>step := StateT\<rparr>)
      else if c = CHR ''f'' then (scanBeginLiteral, s\<lparr>step := StateF\<rparr>)
      else if c = CHR ''n'' then (scanBeginLiteral, s\<lparr>step := StateN\<rparr>)
      else if isDigit1to9 c then (scanBeginLiteral, s\<lparr>step := State1\<rparr>)
      else scanner_error s c ''looking for beginning of value'')"

definition stateBeginValueOrEmpty :: "scanner \<Rightarrow> char \<Rightarrow> opcode \<times> scanner" where
  "stateBeginValueOrEmpty s c =
     (if isSpace c then (scanSkipSpace, s)
      else if c = CHR '']'' then stateEndValue s c
      else stateBeginValue s c)"

definition stateBeginStringOrEmpty :: "scanner \<Rightarrow> char \<Rightarrow> opcode \<times> scanner" where
  "stateBeginStringOrEmpty s c =
     (if isSpace c then (scanSkipSpace, s)
      else if c = CHR ''}''
        then stateEndValue (s\<lparr>parseState := parseObjectValue # tl (parseState s)\<rparr>) c
      else stateBeginString s c)"

definition stateInString :: "scanner \<Rightarrow> char \<Rightarrow> opcode \<times> scanner" where
  "stateInString s c =
     (if c = CHR 0x22 then (scanContinue, s\<lparr>step := StateEndValue\<rparr>)
      else if c = CHR 0x5C then (scanContinue, s\<lparr>step := StateInStringEsc\<rparr>)
      else if (of_char c :: nat) < 0x20 then scanner_error s c ''in string literal''
      else (scanContinue, s))"

definition stateInStringEsc :: "scanner \<Rightarrow> char \<Rightarrow> opcode \<times> scanner" where
  "stateInStringEsc s c =
     (if isEscape c then (scanContinue, s\<lparr>step := StateInString\<rparr>)
      else if c = CHR ''u'' then (scanContinue, s\<lparr>step := StateInStringEscU\<rparr>)
      else scanner_error s c ''in string escape code'')"

text \<open>The four hexadecimal digits after \<^verbatim>\<open>\u\<close>: each goes on to the given next step.\<close>

definition stateInStringEscHex :: "step_fn \<Rightarrow> scanner \<Rightarrow> char \<Rightarrow> opcode \<times> scanner" where
  "stateInStringEscHex next s c =
     (if isHex c then (scanContinue, s\<lparr>step := next\<rparr>)
      else scanner_error s c (''in '' @ [CHR 0x5C] @ ''u hexadecimal character escape''))"

definition stateNeg :: "scanner \<Rightarrow> char \<Rightarrow> opcode \<times> scanner" where
  "stateNeg s c =
     (if c = CHR ''0'' then (scanContinue, s\<lparr>step := State0\<rparr>)
      else if isDigit1to9 c then (scanContinue, s\<lparr>step := State1\<rparr>)
      else scanner_error s c ''in numeric literal'')"

definition state0 :: "scanner \<Rightarrow> char \<Rightarrow> opcode \<times> scanner" where
  "state0 s c =
     (if c = CHR ''.'' then (scanContinue, s\<lparr>step := StateDot\<rparr>)
      else if c = CHR ''e'' \<or> c = CHR ''E'' then (scanContinue, s\<lparr>step := StateE\<rparr>)
      else stateEndValue s c)"

definition state1 :: "scanner \<Rightarrow> char \<Rightarrow> opcode \<times> scanner" where
  "state1 s c =
     (if isDigit c then (scanContinue, s\<lparr>step := State1\<rparr>)
      else state0 s c)"

definition stateDot :: "scanner \<Rightarrow> char \<Rightarrow> opcode \<times> scanner" where
  "stateDot s c =
     (if isDigit c then (scanContinue, s\<lparr>step := StateDot0\<rparr>)
      else scanner_error s c ''after decimal point in numeric literal'')"

definition stateDot0 :: "scanner \<Rightarrow> char \<Rightarrow> opcode \<times> scanner" where
  "stateDot0 s c =
     (if isDigit c then (scanContinue, s)
      else if c = CHR ''e'' \<or> c = CHR ''E'' then (scanContinue, s\<lparr>step := StateE\<rparr>)
      else stateEndValue s c)"

definition stateESign :: "scanner \<Rightarrow> char \<Rightarrow> opcode \<times> scanner" where
  "stateESign s c =
     (if isDigit c then (scanContinue, s\<lparr>step := StateE0\<rparr>)
      else scanner_error s c ''in exponent of numeric literal'')"

definition stateE :: "scanner \<Rightarrow> char \<Rightarrow> opcode \<times> scanner" where
  "stateE s c =
     (if c = CHR ''+'' \<or> c = CHR ''-'' then (scanContinue, s\<lparr>step := StateESign\<rparr>)
      else stateESign s c)"

definition stateE0 :: "scanner \<Rightarrow> char \<Rightarrow> opcode \<times> scanner" where
  "stateE0 s c =
     (if isDigit c then (scanContinue, s)
      else stateEndValue s c)"

text \<open>
  The steps inside \<^verbatim>\<open>true\<close>, \<^verbatim>\<open>false\<close> and \<^verbatim>\<open>null\<close>: the one byte expected, the step after
  it, and the name of the literal for the error.
\<close>

definition stateLiteral :: "char \<Rightarrow> step_fn \<Rightarrow> string \<Rightarrow> scanner \<Rightarrow> char \<Rightarrow> opcode \<times> scanner" where
  "stateLiteral expected next lit s c =
     (if c = expected then (scanContinue, s\<lparr>step := next\<rparr>)
      else scanner_error s c
             (''in literal '' @ lit @ '' (expecting '' @ [CHR 0x27, expected, CHR 0x27] @ '')''))"

text \<open>\<^verbatim>\<open>s.step(s, c)\<close>: the call through the current step function.\<close>

definition scanner_step :: "scanner \<Rightarrow> char \<Rightarrow> opcode \<times> scanner" where
  "scanner_step s c =
     (case step s of
        StateBeginValueOrEmpty \<Rightarrow> stateBeginValueOrEmpty s c
      | StateBeginValue \<Rightarrow> stateBeginValue s c
      | StateBeginStringOrEmpty \<Rightarrow> stateBeginStringOrEmpty s c
      | StateBeginString \<Rightarrow> stateBeginString s c
      | StateEndValue \<Rightarrow> stateEndValue s c
      | StateEndTop \<Rightarrow> stateEndTop s c
      | StateInString \<Rightarrow> stateInString s c
      | StateInStringEsc \<Rightarrow> stateInStringEsc s c
      | StateInStringEscU \<Rightarrow> stateInStringEscHex StateInStringEscU1 s c
      | StateInStringEscU1 \<Rightarrow> stateInStringEscHex StateInStringEscU12 s c
      | StateInStringEscU12 \<Rightarrow> stateInStringEscHex StateInStringEscU123 s c
      | StateInStringEscU123 \<Rightarrow> stateInStringEscHex StateInString s c
      | StateNeg \<Rightarrow> stateNeg s c
      | State1 \<Rightarrow> state1 s c
      | State0 \<Rightarrow> state0 s c
      | StateDot \<Rightarrow> stateDot s c
      | StateDot0 \<Rightarrow> stateDot0 s c
      | StateE \<Rightarrow> stateE s c
      | StateESign \<Rightarrow> stateESign s c
      | StateE0 \<Rightarrow> stateE0 s c
      | StateT \<Rightarrow> stateLiteral CHR ''r'' StateTr ''true'' s c
      | StateTr \<Rightarrow> stateLiteral CHR ''u'' StateTru ''true'' s c
      | StateTru \<Rightarrow> stateLiteral CHR ''e'' StateEndValue ''true'' s c
      | StateF \<Rightarrow> stateLiteral CHR ''a'' StateFa ''false'' s c
      | StateFa \<Rightarrow> stateLiteral CHR ''l'' StateFal ''false'' s c
      | StateFal \<Rightarrow> stateLiteral CHR ''s'' StateFals ''false'' s c
      | StateFals \<Rightarrow> stateLiteral CHR ''e'' StateEndValue ''false'' s c
      | StateN \<Rightarrow> stateLiteral CHR ''u'' StateNu ''null'' s c
      | StateNu \<Rightarrow> stateLiteral CHR ''l'' StateNul ''null'' s c
      | StateNul \<Rightarrow> stateLiteral CHR ''l'' StateEndValue ''null'' s c
      | StateError \<Rightarrow> (scanError, s))"

text \<open>
  \<^verbatim>\<open>Decoder.readValue\<close>: feed the bytes of the buffer until the scanner reports the end
  of the top-level value, and answer how many bytes belong to it. The end of a scalar is
  seen one byte late; after a closing brace or bracket the decoder does not wait for the
  next byte but tries a space. When the input ends, a space is tried too; if that does not
  end the value the error is \<^verbatim>\<open>io.ErrUnexpectedEOF\<close>, or \<^verbatim>\<open>io.EOF\<close> for a buffer with
  nothing but white space.
\<close>

datatype read_error = EOF | ErrUnexpectedEOF | SyntaxError char string

fun nonSpace :: "string \<Rightarrow> bool" where
  "nonSpace [] = False"
| "nonSpace (c # b) = (if \<not> isSpace c then True else nonSpace b)"

fun readValue_loop :: "string \<Rightarrow> scanner \<Rightarrow> string \<Rightarrow> nat \<Rightarrow> read_error + nat" where
  "readValue_loop buf s [] scanp =
     (if fst (scanner_step s CHR '' '') = scanEnd then Inr scanp
      else if nonSpace buf then Inl ErrUnexpectedEOF
      else Inl EOF)"
| "readValue_loop buf s (c # cs) scanp =
     (case scanner_step s c of
        (op, s') \<Rightarrow>
          if op = scanEnd then Inr scanp
          else if op = scanEndObject \<or> op = scanEndArray
            then (case stateEndValue s' CHR '' '' of
                    (op', s'') \<Rightarrow>
                      if op' = scanEnd then Inr (scanp + 1)
                      else readValue_loop buf s'' cs (scanp + 1))
          else if op = scanError
            then (case err s' of
                    Some (b, ctx) \<Rightarrow> Inl (SyntaxError b ctx)
                  | None \<Rightarrow> Inl (SyntaxError c []))
          else readValue_loop buf s' cs (scanp + 1))"

definition readValue :: "string \<Rightarrow> read_error + nat" where
  "readValue buf = readValue_loop buf scanner_reset buf 0"

text \<open>
  What the model leaves to the library: the text \<^verbatim>\<open>quoteChar\<close> gives for the offending
  byte of a syntax error, and \<^verbatim>\<open>d.unmarshal\<close>, which stores the bytes of one scanned value
  into a \<^verbatim>\<open>ReadRequest\<close> or fails (a value of the wrong shape).
\<close>

record json_Decoder =
  quoteChar :: "char \<Rightarrow> string"
  unmarshal :: "string \<Rightarrow> string + ReadRequest"

definition read_error_text :: "json_Decoder \<Rightarrow> read_error \<Rightarrow> string" where
  "read_error_text d e =
     (case e of
        EOF \<Rightarrow> ''EOF''
      | ErrUnexpectedEOF \<Rightarrow> ''unexpected EOF''
      | SyntaxError c ctx \<Rightarrow> ''invalid character '' @ quoteChar d c @ '' '' @ ctx)"

text \<open>
  \<^verbatim>\<open>Decoder.Decode\<close> on a fresh decoder: read the first value, then unmarshal its bytes.
  Nothing after that value is looked at.
\<close>

definition Decode :: "json_Decoder \<Rightarrow> string \<Rightarrow> string + ReadRequest" where
  "Decode d buf =
     (case readValue buf of
        Inl e \<Rightarrow> Inl (read_error_text d e)
      | Inr n \<Rightarrow> unmarshal d (take n buf))"




text \<open>
  A summary of what one step can do to the fields \<open>err\<close> and \<open>endTop\<close>, for the proofs:
  it reports the end; or it reports an error, and \<open>endTop\<close> is as it was; or it closes a composite value, at a byte that is not
  white space, and has completed the top-level value exactly if the stack is empty; or it
  leaves both fields as they were (\<open>er\<close> and \<open>et\<close>).
\<close>

definition step_ok :: "(char \<times> string) option \<Rightarrow> bool \<Rightarrow> char \<Rightarrow> opcode \<times> scanner \<Rightarrow> bool" where
  "step_ok er et c res =
     (case res of
        (op, s') \<Rightarrow>
          if op = scanEnd then True
          else if op = scanError then endTop s' = et
          else if op = scanEndObject \<or> op = scanEndArray
            then \<not> isSpace c \<and> err s' = er
              \<and> (if parseState s' = [] then step s' = StateEndTop \<and> endTop s'
                  else step s' = StateEndValue \<and> endTop s' = et)
          else err s' = er \<and> endTop s' = et)"

section \<open>An in-memory Reader for the concrete instances\<close>

text \<open>
  A decoder that accepts one body, an encoder that accepts everything, and a Reader that
  answers from fixed data, as a test of the handlers would set them up.
\<close>

definition fake_json :: encoding_json where
  "fake_json =
     \<lparr>Unmarshal = (\<lambda>b. if b = ''[a]'' then Inr \<lparr>Key = [\<lparr>Value = DStr ''a'', Binary = None\<rparr>]\<rparr>
                        else Inl ''unexpected end of JSON input''),
      MarshalError = (\<lambda>v. None)\<rparr>"

definition fake_row :: "int \<Rightarrow> row" where
  "fake_row i = [''id'' \<mapsto> DInt i]"

definition fake_reader :: "bool \<Rightarrow> row list \<Rightarrow> string + Duration \<Rightarrow> Reader" where
  "fake_reader found outs latency =
     \<lparr>GetRowByKey = (\<lambda>f t k. Inr (found, if found then fake_row 42 else Map.empty)),
      GetRowsByKeyPrefix = (\<lambda>f t k. Inr \<lparr>scans = map Inr outs, iter_err = None\<rparr>),
      GetLedgerLatency = latency\<rparr>"

definition fake_sidecar :: "int \<Rightarrow> bool \<Rightarrow> row list \<Rightarrow> string + Duration \<Rightarrow> Sidecar" where
  "fake_sidecar n found outs latency =
     New \<lparr>BindAddr = ''localhost:1331'', Reader = fake_reader found outs latency, MaxRows = n\<rparr>"

definition fake_request :: "string \<Rightarrow> Request" where
  "fake_request b =
     \<lparr>vars = [''familyName'' \<mapsto> ''f'', ''tableName'' \<mapsto> ''t''], Body = b,
      URL = ''/'', UserAgent = ''test''\<rparr>"

text \<open>
  A decoder that works as the code's does: \<open>Decode\<close>, over an \<^verbatim>\<open>unmarshal\<close> that answers as
  \<^verbatim>\<open>encoding/json\<close> does on the empty object, the one value the instances below use, and a
  \<^verbatim>\<open>quoteChar\<close> that is right for the printable ASCII bytes other than the two quotes and
  the backslash. And a sidecar whose Reader hands out a given cursor.
\<close>

definition fake_Decoder :: json_Decoder where
  "fake_Decoder =
     \<lparr>quoteChar = (\<lambda>c. [CHR 0x27, c, CHR 0x27]),
      unmarshal = (\<lambda>v. if v = ''{}'' then Inr \<lparr>Key = []\<rparr>
                        else Inl ''json: cannot unmarshal into Go value of type sidecar.ReadRequest'')\<rparr>"

definition stream_json :: encoding_json where
  "stream_json = \<lparr>Unmarshal = Decode fake_Decoder, MarshalError = (\<lambda>v. None)\<rparr>"

definition fake_cursor_sidecar :: "int \<Rightarrow> Rows \<Rightarrow> Sidecar" where
  "fake_cursor_sidecar n rows =
     New \<lparr>BindAddr = ''localhost:1331'',
          Reader = \<lparr>GetRowByKey = (\<lambda>f t k. Inr (True, fake_row 42)),
                    GetRowsByKeyPrefix = (\<lambda>f t k. Inr rows),
                    GetLedgerLatency = Inr 0\<rparr>,
          MaxRows = n\<rparr>"

lemmas fake_defs = fake_json_def fake_reader_def fake_sidecar_def fake_request_def New_def
  index_vars_def keysToInterface_def ToValue_def



section \<open>The key codec: properties\<close>

lemma keysToInterface_loop_map:
  "keysToInterface_loop keys res = res @ map ToValue keys"
  by (induction keys arbitrary: res) simp_all

lemma keysToInterface_map: "keysToInterface keys = map ToValue keys"
  by (simp add: keysToInterface_def keysToInterface_loop_map)

text \<open>
  A segment whose binary payload is present but empty does not resolve to its scalar: the
  empty slice that is not nil takes the first case of the switch.
\<close>

theorem ToValue_empty_binary_counterexample:
  "len_bytes (Binary \<lparr>Value = DStr ''a'', Binary = Some []\<rparr>) = 0
   \<and> ToValue \<lparr>Value = DStr ''a'', Binary = Some []\<rparr> = DBytes []
   \<and> ToValue \<lparr>Value = DStr ''a'', Binary = Some []\<rparr> \<noteq> Value \<lparr>Value = DStr ''a'', Binary = Some []\<rparr>"
  by (simp add: ToValue_def len_bytes_def)

text \<open>
  C1, as amended. Resolving a key segment returns the binary payload whenever that
  payload is present (not nil), also when it has length zero, and whatever scalar the
  segment carries besides; only a segment with no binary payload resolves to its scalar
  value, which is passed on as it is (nil when none was given). In particular a payload
  that is not empty always wins.
\<close>

theorem ToValue_binary_present:
  "(\<forall>b. Binary k = Some b \<longrightarrow> ToValue k = DBytes b)
   \<and> (Binary k = None \<longrightarrow> ToValue k = Value k)
   \<and> (0 < len_bytes (Binary k) \<longrightarrow> (\<exists>b. Binary k = Some b \<and> b \<noteq> [] \<and> ToValue k = DBytes b))"
  by (auto simp: ToValue_def len_bytes_def split: option.splits)

theorem ToValue_binary_present_witness:
  "Binary \<lparr>Value = DStr ''a'', Binary = Some [1, 2]\<rparr> = Some [1, 2]
   \<and> ToValue \<lparr>Value = DStr ''a'', Binary = Some [1, 2]\<rparr> = DBytes [1, 2]
   \<and> 0 < len_bytes (Binary \<lparr>Value = DStr ''a'', Binary = Some [1, 2]\<rparr>)
   \<and> Binary \<lparr>Value = DInt 5, Binary = None\<rparr> = None
   \<and> ToValue \<lparr>Value = DInt 5, Binary = None\<rparr> = DInt 5"
  using ToValue_binary_present [of "\<lparr>Value = DStr ''a'', Binary = Some [1, 2]\<rparr>"]
    ToValue_binary_present [of "\<lparr>Value = DInt 5, Binary = None\<rparr>"]
  by (simp add: len_bytes_def)

lemma getRowByKey_first_event:
  "Unmarshal js (Body r) = Inr rr \<Longrightarrow>
   hd (snd (snd (getRowByKey js s w r))) =
     CallGetRowByKey (index_vars (vars r) ''familyName'') (index_vars (vars r) ''tableName'')
       (keysToInterface (Key rr))"
  by (simp add: getRowByKey_def Let_def case_prod_beta split: sum.splits)

lemma getRowsByKeyPrefix_first_event:
  "Unmarshal js (Body r) = Inr rr \<Longrightarrow>
   hd (snd (snd (getRowsByKeyPrefix js s w r))) =
     CallGetRowsByKeyPrefix (index_vars (vars r) ''familyName'') (index_vars (vars r) ''tableName'')
       (keysToInterface (Key rr))"
  by (simp add: getRowsByKeyPrefix_def Let_def case_prod_beta split: sum.splits option.splits)

text \<open>
  C9. Converting a list of key segments to positional arguments gives a list of the same
  length whose i-th element is the resolution of the i-th segment; and once the body has
  decoded to these segments, the first thing either POST handler does is to call the
  Reader with exactly that list, in that order.
\<close>

theorem keysToInterface_preserves_order:
  "length (keysToInterface keys) = length keys
   \<and> (\<forall>i < length keys. keysToInterface keys ! i = ToValue (keys ! i))
   \<and> (Unmarshal js (Body r) = Inr \<lparr>Key = keys\<rparr> \<longrightarrow>
        hd (snd (snd (getRowByKey js s w r))) =
          CallGetRowByKey (index_vars (vars r) ''familyName'') (index_vars (vars r) ''tableName'')
            (map ToValue keys)
        \<and> hd (snd (snd (getRowsByKeyPrefix js s w r))) =
          CallGetRowsByKeyPrefix (index_vars (vars r) ''familyName'')
            (index_vars (vars r) ''tableName'') (map ToValue keys))"
  using getRowByKey_first_event [of js r "\<lparr>Key = keys\<rparr>" s w]
    getRowsByKeyPrefix_first_event [of js r "\<lparr>Key = keys\<rparr>" s w]
  by (simp add: keysToInterface_map)

theorem keysToInterface_preserves_order_witness:
  "length (keysToInterface [\<lparr>Value = DStr ''a'', Binary = None\<rparr>, \<lparr>Value = DNil, Binary = Some [7]\<rparr>]) = 2
   \<and> (1::nat) < length [\<lparr>Value = DStr ''a'', Binary = None\<rparr>, \<lparr>Value = DNil, Binary = Some [7]\<rparr>]
   \<and> keysToInterface [\<lparr>Value = DStr ''a'', Binary = None\<rparr>, \<lparr>Value = DNil, Binary = Some [7]\<rparr>] ! 1
       = DBytes [7]
   \<and> keysToInterface [\<lparr>Value = DStr ''a'', Binary = None\<rparr>, \<lparr>Value = DNil, Binary = Some [7]\<rparr>] ! 0
       = DStr ''a''
   \<and> Unmarshal fake_json (Body (fake_request ''[a]'')) = Inr \<lparr>Key = [\<lparr>Value = DStr ''a'', Binary = None\<rparr>]\<rparr>
   \<and> hd (snd (snd (getRowByKey fake_json (fake_sidecar 0 True [] (Inr 0)) new_ResponseWriter
         (fake_request ''[a]''))))
       = CallGetRowByKey ''f'' ''t'' [DStr ''a'']"
  using keysToInterface_preserves_order
    [of "[\<lparr>Value = DStr ''a'', Binary = None\<rparr>, \<lparr>Value = DNil, Binary = Some [7]\<rparr>]"]
    keysToInterface_preserves_order
    [of "[\<lparr>Value = DStr ''a'', Binary = None\<rparr>]" fake_json "fake_request ''[a]''"
      "fake_sidecar 0 True [] (Inr 0)" new_ResponseWriter]
  by (simp add: ToValue_def fake_json_def fake_request_def index_vars_def)

section \<open>Responses: properties\<close>

lemma finish_fresh:
  "finish new_ResponseWriter = \<lparr>StatusCode = 200, RespHeader = Map.empty, RespBody = []\<rparr>"
  by (simp add: finish_def new_ResponseWriter_def)

lemma finish_WriteHeader_fresh:
  "finish (WriteHeader (Header_Set new_ResponseWriter k v) code) =
     \<lparr>StatusCode = code, RespHeader = [k \<mapsto> v], RespBody = []\<rparr>"
  by (simp add: finish_def WriteHeader_def Header_Set_def new_ResponseWriter_def)

lemma finish_Write_fresh:
  "finish (Write new_ResponseWriter c) =
     \<lparr>StatusCode = 200, RespHeader = Map.empty, RespBody = [c]\<rparr>"
  by (simp add: finish_def Write_def WriteHeader_def new_ResponseWriter_def Let_def)

lemma finish_http_Error_fresh:
  "finish (http_Error new_ResponseWriter msg code) =
     \<lparr>StatusCode = code,
      RespHeader = [''Content-Type'' \<mapsto> ''text/plain; charset=utf-8'',
                    ''X-Content-Type-Options'' \<mapsto> ''nosniff''],
      RespBody = [Text (msg @ [CHR 0x0A])]\<rparr>"
  by (simp add: finish_def http_Error_def Write_def WriteHeader_def Header_Set_def
      new_ResponseWriter_def Let_def)

section \<open>Point lookups and malformed bodies\<close>

text \<open>
  C3. When the body decodes and the Reader's point lookup succeeds with found = false,
  \<^verbatim>\<open>getRowByKey\<close> returns no error; the response has status 404, carries the header
  \<^verbatim>\<open>X-Ctlstore: Not Found\<close> and has an empty body, and \<^verbatim>\<open>handleErr\<close> logs nothing, so its
  status 500 is not what the client sees.
\<close>

theorem getRowByKey_not_found:
  assumes dec: "Unmarshal js (Body r) = Inr rr"
    and rd: "GetRowByKey (reader s) (index_vars (vars r) ''familyName'')
               (index_vars (vars r) ''tableName'') (keysToInterface (Key rr)) = Inr (False, out)"
  shows "fst (getRowByKey js s w r) = None
    \<and> StatusCode (fst (ServeHTTP js s POST_get_row_by_key r)) = 404
    \<and> RespHeader (fst (ServeHTTP js s POST_get_row_by_key r)) ''X-Ctlstore'' = Some ''Not Found''
    \<and> RespBody (fst (ServeHTTP js s POST_get_row_by_key r)) = []
    \<and> (\<forall>e u. Log e u \<notin> set (snd (ServeHTTP js s POST_get_row_by_key r)))"
proof -
  have h: "getRowByKey js s w r =
      (None, WriteHeader (Header_Set w ''X-Ctlstore'' ''Not Found'') 404,
       [CallGetRowByKey (index_vars (vars r) ''familyName'') (index_vars (vars r) ''tableName'')
          (keysToInterface (Key rr)),
        Observe ''get-row-by-key'' (UserAgent r)])" for w
    using dec rd by (simp add: getRowByKey_def Let_def)
  show ?thesis
    by (simp add: h ServeHTTP_def handleErr_def finish_WriteHeader_fresh)
qed

theorem getRowByKey_not_found_witness:
  "Unmarshal fake_json (Body (fake_request ''[a]'')) = Inr \<lparr>Key = [\<lparr>Value = DStr ''a'', Binary = None\<rparr>]\<rparr>
   \<and> GetRowByKey (reader (fake_sidecar 0 False [] (Inr 0))) ''f'' ''t'' [DStr ''a''] = Inr (False, Map.empty)
   \<and> fst (getRowByKey fake_json (fake_sidecar 0 False [] (Inr 0)) new_ResponseWriter (fake_request ''[a]'')) = None
   \<and> fst (ServeHTTP fake_json (fake_sidecar 0 False [] (Inr 0)) POST_get_row_by_key (fake_request ''[a]''))
       = \<lparr>StatusCode = 404, RespHeader = [''X-Ctlstore'' \<mapsto> ''Not Found''], RespBody = []\<rparr>"
proof -
  let ?r = "fake_request ''[a]''"
  let ?s = "fake_sidecar 0 False [] (Inr 0)"
  let ?rr = "\<lparr>Key = [\<lparr>Value = DStr ''a'', Binary = None\<rparr>]\<rparr>"
  have dec: "Unmarshal fake_json (Body ?r) = Inr ?rr"
    by (simp add: fake_defs)
  have rd: "GetRowByKey (reader ?s) (index_vars (vars ?r) ''familyName'')
      (index_vars (vars ?r) ''tableName'') (keysToInterface (Key ?rr)) = Inr (False, Map.empty)"
    by (simp add: fake_defs)
  have full: "fst (ServeHTTP fake_json ?s POST_get_row_by_key ?r)
       = \<lparr>StatusCode = 404, RespHeader = [''X-Ctlstore'' \<mapsto> ''Not Found''], RespBody = []\<rparr>"
    by (simp add: fake_defs ServeHTTP_def handleErr_def getRowByKey_def Let_def
        finish_WriteHeader_fresh)
  from getRowByKey_not_found [OF dec rd, of new_ResponseWriter] dec rd full show ?thesis
    by (simp add: fake_defs)
qed


subsection \<open>The scanner\<close>

lemma step_ok_error [simp]: "endTop s = et \<Longrightarrow> step_ok er et c (scanner_error s c' ctx)"
  by (simp add: step_ok_def scanner_error_def)

lemma step_ok_plain:
  "op \<noteq> scanEndObject \<Longrightarrow> op \<noteq> scanEndArray \<Longrightarrow> err s' = er \<Longrightarrow> endTop s' = et \<Longrightarrow>
   step_ok er et c (op, s')"
  by (simp add: step_ok_def)

lemma step_ok_stateEndTop [simp]: "step_ok er et c (stateEndTop s c)"
  by (simp add: step_ok_def stateEndTop_def)

lemma step_ok_stateEndValue [simp]:
  "err s = er \<Longrightarrow> endTop s = et \<Longrightarrow> step_ok er et c (stateEndValue s c)"
  by (simp add: stateEndValue_def step_ok_plain split: list.splits parse_state.splits)
    (auto simp: step_ok_def popParseState_def Let_def isSpace_def)

lemma step_ok_pushParseState [simp]:
  "successState \<noteq> scanEndObject \<Longrightarrow> successState \<noteq> scanEndArray \<Longrightarrow>
   err s = er \<Longrightarrow> endTop s = et \<Longrightarrow> step_ok er et c (pushParseState s c' p successState)"
  by (simp add: pushParseState_def Let_def step_ok_plain)

lemma step_ok_stateBeginString [simp]:
  "err s = er \<Longrightarrow> endTop s = et \<Longrightarrow> step_ok er et c (stateBeginString s c)"
  by (simp add: stateBeginString_def step_ok_plain)

lemma step_ok_stateBeginValue [simp]:
  "err s = er \<Longrightarrow> endTop s = et \<Longrightarrow> step_ok er et c (stateBeginValue s c)"
  by (simp add: stateBeginValue_def step_ok_plain)

lemma step_ok_state0 [simp]:
  "err s = er \<Longrightarrow> endTop s = et \<Longrightarrow> step_ok er et c (state0 s c)"
  by (simp add: state0_def step_ok_plain)

lemma step_ok_stateESign [simp]:
  "err s = er \<Longrightarrow> endTop s = et \<Longrightarrow> step_ok er et c (stateESign s c)"
  by (simp add: stateESign_def step_ok_plain)




lemma readValue_empty_object: "readValue ''{}'' = Inr 2"
  by code_simp





lemma stream_json_empty_object: "Unmarshal stream_json ''{}'' = Inr \<lparr>Key = []\<rparr>"
  by (simp add: stream_json_def fake_Decoder_def Decode_def readValue_empty_object)



subsection \<open>Malformed bodies\<close>




section \<open>Ledger latency, healthcheck and ping\<close>

text \<open>
  C7. Whatever the Reader's latency query answers, \<^verbatim>\<open>/ping\<close> and \<^verbatim>\<open>/healthcheck\<close> give the
  same status and the same body, and the two handlers return the same error: status 200
  and an empty body when the query succeeds, status 500 and the text of the error wrapped
  with \<^verbatim>\<open>healthcheck\<close> when it fails.
\<close>

theorem ping_same_as_healthcheck:
  "StatusCode (fst (ServeHTTP js s GET_ping r)) = StatusCode (fst (ServeHTTP js s GET_healthcheck r))
   \<and> RespBody (fst (ServeHTTP js s GET_ping r)) = RespBody (fst (ServeHTTP js s GET_healthcheck r))
   \<and> fst (ping s w r) = fst (healthcheck s w r)
   \<and> fst (ServeHTTP js s GET_ping r) =
       (case GetLedgerLatency (reader s) of
          Inr d \<Rightarrow> \<lparr>StatusCode = 200, RespHeader = Map.empty, RespBody = []\<rparr>
        | Inl e \<Rightarrow> finish (http_Error new_ResponseWriter (''healthcheck: '' @ e) 500))"
  by (simp add: ServeHTTP_def handleErr_def ping_def healthcheck_def Let_def errors_Wrap_def
      finish_fresh split: sum.splits)

subsection \<open>Rounding and the seconds of a duration\<close>

text \<open>
  The rounding is within half a unit in the last place of its argument (or half the
  smallest subnormal), and exact on the integers below \<open>2 ^ 53\<close>; so the seconds of a
  duration differ from the exact quotient by a relative error of at most \<open>2 ^ - 51\<close>.
\<close>

lemma pow2_powi: "pow2 e = 2 powi e"
  by (simp add: pow2_def power_int_def power_one_over)

lemma pow2_pos: "0 < pow2 e"
  by (simp add: pow2_powi)

lemma pow2_add: "pow2 (a + b) = pow2 a * pow2 b"
  by (simp add: pow2_powi power_int_add)

lemma pow2_mono: "a \<le> b \<Longrightarrow> pow2 a \<le> pow2 b"
  by (simp add: pow2_powi power_int_increasing)

lemma pow2_of_nat: "pow2 (int n) = 2 ^ n"
  by (simp add: pow2_def)

lemma round_half_even_err: "\<bar>of_int (round_half_even q) - q\<bar> \<le> 1 / 2"
proof -
  define f where "f = \<lfloor>q\<rfloor>"
  define r where "r = q - of_int f"
  have r: "0 \<le> r" "r < 1" unfolding r_def f_def by linarith+
  have q: "q = of_int f + r" by (simp add: r_def)
  have "round_half_even q =
      (if r < 1 / 2 then f else if 1 / 2 < r then f + 1 else if even f then f else f + 1)"
    by (simp add: round_half_even_def Let_def f_def r_def)
  with r show ?thesis
    unfolding q by (auto simp: abs_if)
qed

lemma round_half_even_of_int: "round_half_even (of_int n) = n"
  by (simp add: round_half_even_def)

lemma quotient_lower:
  assumes x: "0 < x" and pq: "quotient_of x = (p, q)"
  shows "pow2 (bitlen p - bitlen q - 1) \<le> x"
proof -
  from pq have q: "0 < q" by (rule quotient_of_denom_pos)
  from pq have xe: "x = of_int p / of_int q" by (rule quotient_of_div)
  with x q have p: "0 < p" by (simp add: zero_less_divide_iff)
  from bitlen_bounds [OF p] have lp: "2 ^ nat (bitlen p - 1) \<le> p" by simp
  from bitlen_bounds [OF q] have uq: "q < 2 ^ nat (bitlen q)" by simp
  from p have bp: "1 \<le> bitlen p" by (auto simp: bitlen_alt_def)
  have bq: "0 \<le> bitlen q" by (rule bitlen_nonneg)
  have a: "pow2 (bitlen p - 1) \<le> of_int p"
  proof -
    have "pow2 (bitlen p - 1) = 2 ^ nat (bitlen p - 1)" using bp by (simp add: pow2_def)
    also have "\<dots> = of_int (2 ^ nat (bitlen p - 1))" by simp
    also have "\<dots> \<le> of_int p" using lp by (simp only: of_int_le_iff)
    finally show ?thesis .
  qed
  have b: "of_int q \<le> pow2 (bitlen q)"
  proof -
    have "(of_int q :: rat) \<le> of_int (2 ^ nat (bitlen q))" using uq by (simp only: of_int_le_iff)
    also have "\<dots> = pow2 (bitlen q)" using bq by (simp add: pow2_def)
    finally show ?thesis .
  qed
  have "pow2 (bitlen p - bitlen q - 1) = pow2 (bitlen p - 1) / pow2 (bitlen q)"
    by (simp add: pow2_powi power_int_diff)
  also have "\<dots> \<le> of_int p / pow2 (bitlen q)"
    using a pow2_pos [of "bitlen q"] by (simp add: divide_right_mono)
  also have "\<dots> \<le> of_int p / of_int q"
    using b p q by (simp add: divide_left_mono)
  finally show ?thesis by (simp add: xe)
qed

lemma float64_round_shape:
  assumes "x \<noteq> 0"
  obtains e where "- 1074 \<le> e" "pow2 (e + 52) \<le> \<bar>x\<bar> \<or> e = - 1074"
    "float64_round x = sgn x * of_int (round_half_even (\<bar>x\<bar> / pow2 e)) * pow2 e"
proof -
  obtain p q where pq: "quotient_of \<bar>x\<bar> = (p, q)" by (cases "quotient_of \<bar>x\<bar>")
  define b where "b = bitlen p - bitlen q"
  define E where "E = (if pow2 b \<le> \<bar>x\<bar> then b else b - 1)"
  define e where "e = max (E - 52) (- 1074)"
  from assms have ax: "0 < \<bar>x\<bar>" by simp
  have fl: "float64_round x = sgn x * of_int (round_half_even (\<bar>x\<bar> / pow2 e)) * pow2 e"
    using assms pq by (simp add: float64_round_def Let_def b_def E_def e_def)
  have E: "pow2 E \<le> \<bar>x\<bar>"
    using quotient_lower [OF ax pq] by (simp add: E_def b_def)
  have "pow2 (e + 52) \<le> \<bar>x\<bar> \<or> e = - 1074"
  proof (cases "E - 52 \<le> - 1074")
    case True
    then show ?thesis by (simp add: e_def)
  next
    case False
    then have "e + 52 = E" by (simp add: e_def)
    with E show ?thesis by simp
  qed
  moreover have "- 1074 \<le> e" by (simp add: e_def)
  ultimately show ?thesis using fl that by blast
qed

lemma float64_round_err: "\<bar>float64_round x - x\<bar> \<le> \<bar>x\<bar> / 2 ^ 53 + pow2 (- 1075)"
proof (cases "x = 0")
  case True
  then show ?thesis using pow2_pos [of "- 1075"] by (simp add: float64_round_def)
next
  case False
  from float64_round_shape [OF False] obtain e where
    e: "pow2 (e + 52) \<le> \<bar>x\<bar> \<or> e = - 1074"
    and fl: "float64_round x = sgn x * of_int (round_half_even (\<bar>x\<bar> / pow2 e)) * pow2 e"
    by blast
  define m where "m = round_half_even (\<bar>x\<bar> / pow2 e)"
  have pe: "pow2 e \<le> \<bar>x\<bar> / 2 ^ 52 + pow2 (- 1074)"
    using e
  proof
    assume "pow2 (e + 52) \<le> \<bar>x\<bar>"
    moreover have "pow2 52 = 2 ^ 52" by (simp add: pow2_def)
    ultimately have "pow2 e * 2 ^ 52 \<le> \<bar>x\<bar>" by (simp only: pow2_add)
    then have "pow2 e \<le> \<bar>x\<bar> / 2 ^ 52" by (simp add: pos_le_divide_eq)
    then show ?thesis using pow2_pos [of "- 1074"] by linarith
  next
    assume "e = - 1074"
    then show ?thesis by simp
  qed
  have "\<bar>float64_round x - x\<bar> = \<bar>of_int m * pow2 e - \<bar>x\<bar>\<bar>"
  proof (cases "0 < x")
    case True
    then show ?thesis by (simp add: fl m_def)
  next
    case neg: False
    with False have "x < 0" by simp
    then show ?thesis by (simp add: fl m_def abs_minus_commute)
  qed
  also have "\<dots> = \<bar>of_int m - \<bar>x\<bar> / pow2 e\<bar> * pow2 e"
  proof -
    have "of_int m * pow2 e - \<bar>x\<bar> = (of_int m - \<bar>x\<bar> / pow2 e) * pow2 e"
      using pow2_pos [of e] by (simp add: left_diff_distrib)
    then show ?thesis
      using pow2_pos [of e] by (simp only: abs_mult abs_of_pos)
  qed
  also have "\<dots> \<le> (1 / 2) * pow2 e"
    using round_half_even_err [of "\<bar>x\<bar> / pow2 e"] pow2_pos [of e]
    by (simp add: m_def mult_right_mono)
  also have "\<dots> \<le> (1 / 2) * (\<bar>x\<bar> / 2 ^ 52 + pow2 (- 1074))"
    using pe by simp
  also have "\<dots> = \<bar>x\<bar> / 2 ^ 53 + pow2 (- 1075)"
    by (simp add: pow2_def)
  finally show ?thesis .
qed

lemma float64_round_of_int:
  assumes "\<bar>n\<bar> < 2 ^ 53"
  shows "float64_round (of_int n) = of_int n"
proof (cases "n = 0")
  case True
  then show ?thesis by (simp add: float64_round_def)
next
  case False
  then have nz: "(of_int n :: rat) \<noteq> 0" by simp
  from float64_round_shape [OF nz] obtain e where
    lo: "- 1074 \<le> e"
    and e: "pow2 (e + 52) \<le> \<bar>of_int n :: rat\<bar> \<or> e = - 1074"
    and fl: "float64_round (of_int n) =
        sgn (of_int n) * of_int (round_half_even (\<bar>of_int n\<bar> / pow2 e)) * pow2 e"
    by blast
  have up: "\<bar>of_int n :: rat\<bar> < pow2 53"
  proof -
    have "\<bar>of_int n :: rat\<bar> = of_int \<bar>n\<bar>" by simp
    also have "\<dots> < of_int (2 ^ 53)" using assms by (simp only: of_int_less_iff)
    also have "\<dots> = pow2 53" by (simp add: pow2_def)
    finally show ?thesis .
  qed
  have e0: "e \<le> 0"
    using e
  proof
    assume a: "pow2 (e + 52) \<le> \<bar>of_int n :: rat\<bar>"
    show ?thesis
    proof (rule ccontr)
      assume "\<not> e \<le> 0"
      then have "53 \<le> e + 52" by simp
      from pow2_mono [OF this] a up show False by linarith
    qed
  next
    assume "e = - 1074"
    then show ?thesis by simp
  qed
  define k where "k = nat (- e)"
  from e0 have pe: "pow2 e = 1 / 2 ^ k" 
    by (cases "e = 0") (simp_all add: pow2_def k_def)
  have "\<bar>of_int n :: rat\<bar> / pow2 e = of_int (\<bar>n\<bar> * 2 ^ k)"
    by (simp add: pe)
  then have "round_half_even (\<bar>of_int n\<bar> / pow2 e) = \<bar>n\<bar> * 2 ^ k"
    by (simp only: round_half_even_of_int)
  with fl have "float64_round (of_int n) = sgn (of_int n) * of_int (\<bar>n\<bar> * 2 ^ k) * (1 / 2 ^ k)"
    by (simp only: pe)
  also have "\<dots> = sgn (of_int n) * of_int \<bar>n\<bar>"
    by simp
  also have "\<dots> = of_int n"
    by (simp add: sgn_if)
  finally show ?thesis .
qed

lemma Seconds_relative: "\<bar>Seconds d - of_int (sint d) / 1000000000\<bar> \<le> \<bar>of_int (sint d) / 1000000000\<bar> / 2 ^ 51"
proof (cases "sint d = 0")
  case True
  then show ?thesis by (simp add: Seconds_def float64_round_def)
next
  case False
  define k where "k = sint d"
  define a where "a = \<bar>k\<bar> div 1000000000"
  define r where "r = \<bar>k\<bar> mod 1000000000"
  have sec: "k sdiv 1000000000 = sgn k * a"
    by (simp add: signed_divide_int_def a_def)
  have nsec: "k smod 1000000000 = sgn k * r"
    by (simp add: signed_modulo_int_def r_def)
  have a0: "0 \<le> a" and r0: "0 \<le> r" and r1: "r < 1000000000"
    by (simp_all add: a_def r_def)
  have ka: "\<bar>k\<bar> = a * 1000000000 + r"
    by (simp add: a_def r_def)
  have rng: "- 9223372036854775808 \<le> k" "k < 9223372036854775808"
    using sint_ge [of d] sint_lt [of d] by (simp_all add: k_def)
  from ka rng r0 have ab: "a \<le> 9223372036" by linarith
  from False have sk: "\<bar>sgn k\<bar> = 1" by (simp add: k_def sgn_if)
  define x :: rat where "x = of_int k / 1000000000"
  define y :: rat where "y = of_int (sgn k * r) / 1000000000"
  define B where "B = float64_round y"
  from False have skq: "\<bar>of_int (sgn k) :: rat\<bar> = 1" by (simp add: k_def sgn_if)
  have ay: "\<bar>y\<bar> = of_int r / 1000000000"
    using r0 by (simp add: y_def abs_mult skq)
  have asec: "\<bar>of_int (sgn k * a) :: rat\<bar> = of_int a"
    using a0 by (simp add: abs_mult skq)
  have ax: "\<bar>x\<bar> = of_int a + \<bar>y\<bar>"
  proof -
    have "\<bar>x\<bar> = of_int \<bar>k\<bar> / 1000000000" by (simp add: x_def)
    also have "\<dots> = of_int a + of_int r / 1000000000"
      by (simp add: ka add_divide_distrib)
    finally show ?thesis by (simp add: ay)
  qed
  have xs: "x = of_int (sgn k * a) + y"
  proof -
    have "k = sgn k * \<bar>k\<bar>" by (simp add: sgn_if)
    also have "\<dots> = sgn k * a * 1000000000 + sgn k * r" by (simp add: ka algebra_simps)
    finally have "(of_int k :: rat) = of_int (sgn k * a) * 1000000000 + of_int (sgn k * r)"
      by (metis of_int_add of_int_mult of_int_numeral)
    then show ?thesis by (simp add: x_def y_def add_divide_distrib)
  qed
  have xl: "1 / 1000000000 \<le> \<bar>x\<bar>"
  proof -
    from False have "1 \<le> \<bar>k\<bar>" by (simp add: k_def)
    then have "(1 :: rat) \<le> of_int \<bar>k\<bar>" by (simp only: of_int_1_le_iff)
    then show ?thesis by (simp add: x_def)
  qed
  have A: "float64_round (of_int (sgn k * a)) = of_int (sgn k * a)"
  proof (rule float64_round_of_int)
    have "\<bar>sgn k * a\<bar> = a" using a0 sk by (simp add: abs_mult)
    with ab show "\<bar>sgn k * a\<bar> < 2 ^ 53" by simp
  qed
  have N: "float64_round (of_int (sgn k * r)) = of_int (sgn k * r)"
  proof (rule float64_round_of_int)
    have "\<bar>sgn k * r\<bar> = r" using r0 sk by (simp add: abs_mult)
    with r1 show "\<bar>sgn k * r\<bar> < 2 ^ 53" by simp
  qed
  have S: "Seconds d = float64_round (of_int (sgn k * a) + B)"
  proof -
    have "Seconds d =
        float64_round (float64_round (of_int (k sdiv 1000000000))
          + float64_round (float64_round (of_int (k smod 1000000000)) / 1000000000))"
      by (simp add: Seconds_def Let_def k_def)
    then show ?thesis by (simp only: sec nsec A N B_def y_def)
  qed
  have t: "pow2 (- 1075) \<le> 1 / 2 ^ 90"
    using pow2_mono [of "- 1075" "- 90"] by (simp add: pow2_def)
  then have t': "pow2 (- 1075) \<le> \<bar>x\<bar> / 2 ^ 60" using xl by simp
  have eB: "\<bar>B - y\<bar> \<le> \<bar>y\<bar> / 2 ^ 53 + pow2 (- 1075)"
    unfolding B_def by (rule float64_round_err)
  have eS: "\<bar>Seconds d - (of_int (sgn k * a) + B)\<bar>
      \<le> \<bar>of_int (sgn k * a) + B\<bar> / 2 ^ 53 + pow2 (- 1075)"
    unfolding S by (rule float64_round_err)
  have y0: "0 \<le> \<bar>y\<bar>" by simp
  have yx: "\<bar>y\<bar> \<le> \<bar>x\<bar>" using a0 by (simp add: ax)
  have bB: "\<bar>B\<bar> \<le> \<bar>y\<bar> + \<bar>B - y\<bar>" by linarith
  have bs: "\<bar>of_int (sgn k * a) + B\<bar> \<le> of_int a + \<bar>B\<bar>"
    using abs_triangle_ineq [of "of_int (sgn k * a) :: rat" B] by (simp only: asec)
  have tri: "\<bar>Seconds d - x\<bar> \<le> \<bar>Seconds d - (of_int (sgn k * a) + B)\<bar> + \<bar>B - y\<bar>"
    unfolding xs by linarith
  define u where "u = \<bar>x\<bar>"
  define v where "v = \<bar>y\<bar>"
  define e1 where "e1 = \<bar>B - y\<bar>"
  define e2 where "e2 = \<bar>Seconds d - (of_int (sgn k * a) + B)\<bar>"
  define w where "w = \<bar>of_int (sgn k * a) + B\<bar>"
  define tt where "tt = pow2 (- 1075)"
  define c where "c = \<bar>B\<bar>"
  have "e1 \<le> v / 9007199254740992 + tt" using eB by (simp add: e1_def v_def tt_def)
  moreover have "e2 \<le> w / 9007199254740992 + tt" using eS by (simp add: e2_def w_def tt_def)
  moreover have "tt \<le> u / 1152921504606846976" using t' by (simp add: tt_def u_def)
  moreover have "w \<le> of_int a + c" using bs by (simp add: w_def c_def)
  moreover have "c \<le> v + e1" using bB by (simp add: c_def v_def e1_def)
  moreover have "u = of_int a + v" using ax by (simp add: u_def v_def)
  moreover have "0 \<le> v" by (simp add: v_def)
  moreover have "(0::rat) \<le> of_int a" using a0 by simp
  moreover have "\<bar>Seconds d - x\<bar> \<le> e2 + e1" using tri by (simp add: e1_def e2_def)
  ultimately have "\<bar>Seconds d - x\<bar> \<le> u / 2251799813685248" by linarith
  then show ?thesis by (simp add: u_def x_def k_def)
qed

lemma float64_round_tenth: "float64_round (1 / 10) = 3602879701896397 / 36028797018963968"
  by code_simp

lemma Seconds_one_and_a_half: "Seconds 1500000000 = 3 / 2"
  by code_simp

text \<open>
  C8. When the Reader's latency query answers with a duration d and the object encodes,
  \<^verbatim>\<open>getLedgerLatency\<close> returns no error and the response has status 200 and, as its body,
  the JSON object whose field \<^verbatim>\<open>value\<close> is the number \<^verbatim>\<open>d.Seconds()\<close> and whose field
  \<^verbatim>\<open>unit\<close> is the string \<^verbatim>\<open>seconds\<close>. That number is d in seconds up to the rounding of
  \<^verbatim>\<open>float64\<close>, a relative error of at most \<open>2 ^ - 51\<close>; for a latency of 1.5 seconds
  (1500000000 ns) it is 1.5. The body is compared as a JSON value: the order of the
  fields in the text is the encoder's.
\<close>

theorem getLedgerLatency_seconds:
  assumes rd: "GetLedgerLatency (reader s) = Inr d"
    and enc: "MarshalError js (DMap [''value'' \<mapsto> DFloat (Seconds d), ''unit'' \<mapsto> DStr ''seconds'']) = None"
  shows "fst (getLedgerLatency js s w r) = None
    \<and> StatusCode (fst (ServeHTTP js s GET_get_ledger_latency r)) = 200
    \<and> RespBody (fst (ServeHTTP js s GET_get_ledger_latency r)) =
        [Json (DMap [''value'' \<mapsto> DFloat (Seconds d), ''unit'' \<mapsto> DStr ''seconds''])]
    \<and> \<bar>Seconds d - of_int (sint d) / 1000000000\<bar> \<le> \<bar>of_int (sint d) / 1000000000\<bar> / 2 ^ 51
    \<and> (d = 1500000000 \<longrightarrow>
        RespBody (fst (ServeHTTP js s GET_get_ledger_latency r)) =
          [Json (DMap [''value'' \<mapsto> DFloat (3 / 2), ''unit'' \<mapsto> DStr ''seconds''])])"
proof -
  have h: "getLedgerLatency js s w r =
      (None, Write w (Json (DMap [''value'' \<mapsto> DFloat (Seconds d), ''unit'' \<mapsto> DStr ''seconds''])),
       [CallGetLedgerLatency, Observe ''get-ledger-latency'' (UserAgent r)])" for w
    using rd enc by (simp add: getLedgerLatency_def Let_def Encode_def)
  show ?thesis
    using Seconds_one_and_a_half Seconds_relative [of d]
    by (auto simp: h ServeHTTP_def handleErr_def finish_Write_fresh)
qed

theorem getLedgerLatency_seconds_witness:
  "GetLedgerLatency (reader (fake_sidecar 0 True [] (Inr 1500000000))) = Inr 1500000000
   \<and> MarshalError fake_json
        (DMap [''value'' \<mapsto> DFloat (Seconds 1500000000), ''unit'' \<mapsto> DStr ''seconds'']) = None
   \<and> StatusCode (fst (ServeHTTP fake_json (fake_sidecar 0 True [] (Inr 1500000000))
        GET_get_ledger_latency (fake_request []))) = 200
   \<and> RespBody (fst (ServeHTTP fake_json (fake_sidecar 0 True [] (Inr 1500000000))
        GET_get_ledger_latency (fake_request []))) =
        [Json (DMap [''value'' \<mapsto> DFloat (3 / 2), ''unit'' \<mapsto> DStr ''seconds''])]"
proof -
  have rd: "GetLedgerLatency (reader (fake_sidecar 0 True [] (Inr 1500000000))) = Inr 1500000000"
    by (simp add: fake_defs)
  have enc: "MarshalError fake_json
        (DMap [''value'' \<mapsto> DFloat (Seconds 1500000000), ''unit'' \<mapsto> DStr ''seconds'']) = None"
    by (simp add: fake_defs)
  from getLedgerLatency_seconds [OF rd enc, of new_ResponseWriter "fake_request []"] rd enc
  show ?thesis by (simp add: Seconds_one_and_a_half)
qed

section \<open>Prefix scans\<close>

subsection \<open>The loop over the cursor\<close>

lemma loop_no_limit:
  "\<not> (0 < mr \<and> mr < int (length res + length outs)) \<Longrightarrow>
   getRowsByKeyPrefix_loop mr (map Inr outs) res =
     (Inr (res @ map DMap outs),
      concat (replicate (length outs) [RowsNext True, RowsScan]) @ [RowsNext False])"
proof (induction outs arbitrary: res)
  case Nil
  then show ?case by simp
next
  case (Cons out outs)
  from Cons.prems have here: "\<not> (0 < mr \<and> mr < int (length (res @ [DMap out])))"
    by auto
  from Cons.prems have "\<not> (0 < mr \<and> mr < int (length (res @ [DMap out]) + length outs))"
    by simp
  from Cons.IH [OF this] here show ?case
    by (simp add: Let_def)
qed

lemma loop_limit:
  "0 < mr \<Longrightarrow> int (length res) \<le> mr \<Longrightarrow> mr < int (length res + length outs) \<Longrightarrow>
   getRowsByKeyPrefix_loop mr (map Inr outs) res =
     (Inl (max_row_count_exceeded mr),
      concat (replicate (nat mr + 1 - length res) [RowsNext True, RowsScan]))"
proof (induction outs arbitrary: res)
  case Nil
  then show ?case by simp
next
  case (Cons out outs)
  show ?case
  proof (cases "mr < int (length res) + 1")
    case True
    with Cons.prems have "nat mr + 1 - length res = 1" by linarith
    with True Cons.prems show ?thesis by (simp add: Let_def)
  next
    case False
    with Cons.prems have a: "int (length (res @ [DMap out])) \<le> mr"
      and b: "mr < int (length (res @ [DMap out]) + length outs)" by simp_all
    from Cons.prems have le: "length res \<le> nat mr" by linarith
    from Cons.IH [OF Cons.prems(1) a b] False show ?thesis
      by (simp add: Let_def Suc_diff_le [OF le])
  qed
qed

lemma loop_Inr:
  "getRowsByKeyPrefix_loop mr scs res = (Inr res', evs) \<Longrightarrow>
   \<exists>outs. scs = map Inr outs \<and> res' = res @ map DMap outs"
proof (induction scs arbitrary: res evs)
  case Nil
  then show ?case by simp
next
  case (Cons sc scs)
  from Cons.prems obtain out where sc: "sc = Inr out"
    by (cases sc) simp_all
  from Cons.prems sc obtain evs' where
    "getRowsByKeyPrefix_loop mr scs (res @ [DMap out]) = (Inr res', evs')"
    by (auto simp: Let_def split: if_splits prod.splits)
  from Cons.IH [OF this] obtain outs where
    "scs = map Inr outs" "res' = (res @ [DMap out]) @ map DMap outs" by blast
  with sc show ?case
    by (intro exI [of _ "out # outs"]) simp
qed

lemma loop_no_close: "RowsClose \<notin> set (snd (getRowsByKeyPrefix_loop mr scs res))"
  by (induction scs arbitrary: res) (auto simp: Let_def case_prod_beta split: sum.splits)

lemma loop_not_Errorf:
  "mr \<le> 0 \<Longrightarrow> fst (getRowsByKeyPrefix_loop mr scs res) \<noteq> Inl (Errorf m)"
  by (induction scs arbitrary: res) (auto simp: Let_def case_prod_beta split: sum.splits)

lemma length_filter_scan_pairs:
  "length (filter (\<lambda>ev. ev = RowsScan) (concat (replicate k [RowsNext True, RowsScan]))) = k"
  by (induction k) simp_all

lemma loop_limit_prefix:
  "0 < mr \<Longrightarrow> int (length res) \<le> mr \<Longrightarrow> int (length res + length outs) = mr + 1 \<Longrightarrow>
   getRowsByKeyPrefix_loop mr (map Inr outs @ rest) res =
     (Inl (max_row_count_exceeded mr), concat (replicate (length outs) [RowsNext True, RowsScan]))"
proof (induction outs arbitrary: res)
  case Nil
  then show ?case by simp
next
  case (Cons out outs)
  show ?case
  proof (cases "mr < int (length res) + 1")
    case True
    with Cons.prems have "outs = []" by simp
    with True Cons.prems show ?thesis by (simp add: Let_def)
  next
    case False
    with Cons.prems have a: "int (length (res @ [DMap out])) \<le> mr"
      and b: "int (length (res @ [DMap out]) + length outs) = mr + 1" by simp_all
    from Cons.IH [OF Cons.prems(1) a b] False show ?thesis
      by (simp add: Let_def)
  qed
qed

lemma loop_limit_only_if:
  "0 < mr \<Longrightarrow> int (length res) \<le> mr \<Longrightarrow>
   fst (getRowsByKeyPrefix_loop mr scs res) = Inl (max_row_count_exceeded mr) \<Longrightarrow>
   \<exists>outs rest. scs = map Inr outs @ rest \<and> int (length res + length outs) = mr + 1"
proof (induction scs arbitrary: res)
  case Nil
  then show ?case by simp
next
  case (Cons sc scs)
  show ?case
  proof (cases sc)
    case (Inl e)
    with Cons.prems show ?thesis by (simp add: max_row_count_exceeded_def)
  next
    case (Inr out)
    show ?thesis
    proof (cases "mr < int (length res) + 1")
      case True
      with Cons.prems have "int (length res + length [out]) = mr + 1" by simp
      moreover from Inr have "sc # scs = map Inr [out] @ scs" by simp
      ultimately show ?thesis by blast
    next
      case False
      with Cons.prems Inr have a: "int (length (res @ [DMap out])) \<le> mr"
        and b: "fst (getRowsByKeyPrefix_loop mr scs (res @ [DMap out])) = Inl (max_row_count_exceeded mr)"
        by (simp_all add: Let_def case_prod_beta)
      from Cons.IH [OF Cons.prems(1) a b] obtain outs rest where
        o: "scs = map Inr outs @ rest" "int (length (res @ [DMap out]) + length outs) = mr + 1"
        by blast
      from o Inr have "sc # scs = map Inr (out # outs) @ rest" by simp
      moreover from o have "int (length res + length (out # outs)) = mr + 1" by simp
      ultimately show ?thesis by blast
    qed
  qed
qed

lemma getRowsByKeyPrefix_outcomes:
  "(\<exists>e evs. \<forall>w. getRowsByKeyPrefix js s w r = (Some e, w, evs))
   \<or> (\<exists>rr rows outs evs.
        Unmarshal js (Body r) = Inr rr
        \<and> GetRowsByKeyPrefix (reader s) (index_vars (vars r) ''familyName'')
             (index_vars (vars r) ''tableName'') (keysToInterface (Key rr)) = Inr rows
        \<and> scans rows = map Inr outs
        \<and> \<not> (0 < maxRows s \<and> maxRows s < int (length outs))
        \<and> iter_err rows = None
        \<and> MarshalError js (DSlice (map DMap outs)) = None
        \<and> (\<forall>w. getRowsByKeyPrefix js s w r = (None, Write w (Json (DSlice (map DMap outs))), evs)))"
proof (cases "Unmarshal js (Body r)")
  case (Inl e)
  then show ?thesis by (simp add: getRowsByKeyPrefix_def Let_def)
next
  case (Inr rr)
  show ?thesis
  proof (cases "GetRowsByKeyPrefix (reader s) (index_vars (vars r) ''familyName'')
             (index_vars (vars r) ''tableName'') (keysToInterface (Key rr))")
    case (Inl e)
    with Inr show ?thesis by (simp add: getRowsByKeyPrefix_def Let_def)
  next
    case rows: (Inr rows)
    obtain res evs where l: "getRowsByKeyPrefix_loop (maxRows s) (scans rows) [] = (res, evs)"
      by (cases "getRowsByKeyPrefix_loop (maxRows s) (scans rows) []")
    show ?thesis
    proof (cases res)
      case (Inl e)
      with Inr rows l show ?thesis by (simp add: getRowsByKeyPrefix_def Let_def)
    next
      case res: (Inr res')
      from loop_Inr [OF l [unfolded res]] obtain outs where
        outs: "scans rows = map Inr outs" "res' = map DMap outs" by auto
      have nolimit: "\<not> (0 < maxRows s \<and> maxRows s < int (length outs))"
      proof
        assume "0 < maxRows s \<and> maxRows s < int (length outs)"
        then have "getRowsByKeyPrefix_loop (maxRows s) (map Inr outs) [] =
            (Inl (max_row_count_exceeded (maxRows s)),
             concat (replicate (nat (maxRows s) + 1 - length ([] :: dyn list)) [RowsNext True, RowsScan]))"
          by (intro loop_limit) simp_all
        with l res outs show False by simp
      qed
      show ?thesis
      proof (cases "iter_err rows")
        case (Some e)
        with Inr rows l res show ?thesis by (simp add: getRowsByKeyPrefix_def Let_def)
      next
        case None
        show ?thesis
        proof (cases "MarshalError js (DSlice res')")
          case (Some e)
          with None Inr rows l res show ?thesis
            by (simp add: getRowsByKeyPrefix_def Let_def Encode_def)
        next
          case me: None
          have "\<forall>w. getRowsByKeyPrefix js s w r =
              (None, Write w (Json (DSlice (map DMap outs))),
               CallGetRowsByKeyPrefix (index_vars (vars r) ''familyName'')
                 (index_vars (vars r) ''tableName'') (keysToInterface (Key rr))
               # evs @ [RowsErr, RowsClose, Observe ''get-rows-by-key-prefix'' (UserAgent r)])"
            using me None Inr rows l res outs
            by (simp add: getRowsByKeyPrefix_def Let_def Encode_def)
          with Inr rows outs None me nolimit show ?thesis by blast
        qed
      qed
    qed
  qed
qed

lemma getRowsByKeyPrefix_success:
  assumes dec: "Unmarshal js (Body r) = Inr rr"
    and rd: "GetRowsByKeyPrefix (reader s) (index_vars (vars r) ''familyName'')
               (index_vars (vars r) ''tableName'') (keysToInterface (Key rr)) = Inr rows"
    and ok: "scans rows = map Inr outs"
    and lim: "\<not> (0 < maxRows s \<and> maxRows s < int (length outs))"
    and it: "iter_err rows = None"
    and enc: "MarshalError js (DSlice (map DMap outs)) = None"
  shows "getRowsByKeyPrefix js s w r =
      (None, Write w (Json (DSlice (map DMap outs))),
       CallGetRowsByKeyPrefix (index_vars (vars r) ''familyName'')
         (index_vars (vars r) ''tableName'') (keysToInterface (Key rr))
       # concat (replicate (length outs) [RowsNext True, RowsScan])
       @ [RowsNext False, RowsErr, RowsClose, Observe ''get-rows-by-key-prefix'' (UserAgent r)])"
proof -
  from lim have "getRowsByKeyPrefix_loop (maxRows s) (map Inr outs) [] =
      (Inr (map DMap outs),
       concat (replicate (length outs) [RowsNext True, RowsScan]) @ [RowsNext False])"
    using loop_no_limit [of "maxRows s" "[]" outs] by simp
  with dec rd ok it enc show ?thesis
    by (simp add: getRowsByKeyPrefix_def Let_def Encode_def)
qed

subsection \<open>The row ceiling\<close>

lemma digit_table: "\<forall>k \<in> set [0..<10]. of_char (''0123456789'' ! k) = (48 + k :: nat)"
  by code_simp

lemma digit_of_char: "k < 10 \<Longrightarrow> of_char (''0123456789'' ! k) = (48 + k :: nat)"
  using digit_table by simp

lemma digit_isDigit: "k < 10 \<Longrightarrow> isDigit (''0123456789'' ! k)"
  unfolding isDigit_def by (rule nth_mem) simp

lemma decimal_value_snoc: "decimal_value (ds @ [c]) = 10 * decimal_value ds + (of_char c - 48)"
  by (simp add: decimal_value_def)

lemma decimal_value_utoa: "decimal_value (utoa n) = n"
proof (induction n rule: utoa.induct)
  case (1 n)
  show ?case
  proof (cases "n < 10")
    case True
    then show ?thesis
      by (subst utoa.simps) (simp add: decimal_value_def digit_of_char)
  next
    case False
    with "1" have "decimal_value (utoa (n div 10)) = n div 10" by simp
    with False show ?thesis
      by (subst utoa.simps) (simp add: decimal_value_snoc digit_of_char)
  qed
qed

lemma utoa_digits: "list_all isDigit (utoa n)"
proof (induction n rule: utoa.induct)
  case (1 n)
  show ?case
  proof (cases "n < 10")
    case True
    then show ?thesis by (subst utoa.simps) (simp add: digit_isDigit)
  next
    case False
    with "1" have "list_all isDigit (utoa (n div 10))" by simp
    with False show ?thesis by (subst utoa.simps) (simp add: digit_isDigit)
  qed
qed

lemma itoa_decimal: "0 \<le> i \<Longrightarrow> decimal_value (itoa i) = nat i \<and> list_all isDigit (itoa i)"
  by (simp add: itoa_def decimal_value_utoa utoa_digits)

text \<open>
  With at most N rows in the cursor the answer is not always 200: a cursor that yields one
  row and then reports an iteration error gets 500 under a ceiling of 2. And a cursor that
  holds more than N rows does not always meet the ceiling: when its first scan fails, the
  handler returns the scan error.
\<close>

theorem row_limit_claim_counterexample:
  "maxRows (fake_cursor_sidecar 2 \<lparr>scans = [Inr (fake_row 1)], iter_err = Some ''connection reset''\<rparr>) = 2
   \<and> length [Inr (fake_row 1) :: string + row] \<le> 2
   \<and> StatusCode (fst (ServeHTTP stream_json
         (fake_cursor_sidecar 2 \<lparr>scans = [Inr (fake_row 1)], iter_err = Some ''connection reset''\<rparr>)
         POST_get_rows_by_key_prefix (fake_request ''{}''))) = 500
   \<and> RespBody (fst (ServeHTTP stream_json
         (fake_cursor_sidecar 2 \<lparr>scans = [Inr (fake_row 1)], iter_err = Some ''connection reset''\<rparr>)
         POST_get_rows_by_key_prefix (fake_request ''{}''))) = [Text (''connection reset'' @ [CHR 0x0A])]
   \<and> length [Inl ''bad column'', Inr (fake_row 1), Inr (fake_row 2), Inr (fake_row 3) :: string + row] > 2
   \<and> fst (getRowsByKeyPrefix stream_json
         (fake_cursor_sidecar 2
            \<lparr>scans = [Inl ''bad column'', Inr (fake_row 1), Inr (fake_row 2), Inr (fake_row 3)],
             iter_err = None\<rparr>)
         new_ResponseWriter (fake_request ''{}'')) = Some (Wrap (Foreign ''bad column'') ''scan'')"
  by (simp add: stream_json_empty_object ServeHTTP_def handleErr_def getRowsByKeyPrefix_def
      fake_cursor_sidecar_def fake_request_def New_def index_vars_def keysToInterface_def Let_def
      finish_http_Error_fresh)

text \<open>
  C2, as amended. Let the ceiling be N with N at least 1, let the body decode and the
  Reader hand out a cursor. The handler fails with the error \<^verbatim>\<open>max row count (N) exceeded\<close>,
  N printed in decimal, exactly when the first N + 1 scans of the cursor all succeed, that
  is when the cursor yields more than N rows before any scan fails. The test comes after
  the append: N + 1 rows have been scanned when the handler gives up, and the response has
  status 500 with the error text as its body. When every scan of the cursor succeeds, it
  yields at most N rows, it ends without an iteration error and the rows encode, the
  response has status 200 and its body is the JSON array of exactly those rows in the
  cursor's order.
\<close>

theorem row_limit_exceeded_iff:
  assumes mr: "maxRows s = N" and pos: "1 \<le> N"
    and dec: "Unmarshal js (Body r) = Inr rr"
    and rd: "GetRowsByKeyPrefix (reader s) (index_vars (vars r) ''familyName'')
               (index_vars (vars r) ''tableName'') (keysToInterface (Key rr)) = Inr rows"
  shows "(fst (getRowsByKeyPrefix js s w r) = Some (max_row_count_exceeded N)
          \<longleftrightarrow> (\<exists>outs rest. scans rows = map Inr outs @ rest \<and> int (length outs) = N + 1))
    \<and> Error (max_row_count_exceeded N) = ''max row count ('' @ itoa N @ '') exceeded''
    \<and> decimal_value (itoa N) = nat N \<and> list_all isDigit (itoa N)
    \<and> ((\<exists>outs rest. scans rows = map Inr outs @ rest \<and> int (length outs) = N + 1) \<longrightarrow>
          length (filter (\<lambda>ev. ev = RowsScan) (snd (snd (getRowsByKeyPrefix js s w r)))) = nat N + 1
          \<and> StatusCode (fst (ServeHTTP js s POST_get_rows_by_key_prefix r)) = 500
          \<and> RespBody (fst (ServeHTTP js s POST_get_rows_by_key_prefix r)) =
              [Text (''max row count ('' @ itoa N @ '') exceeded'' @ [CHR 0x0A])])
    \<and> (\<forall>outs. scans rows = map Inr outs \<and> int (length outs) \<le> N \<and> iter_err rows = None
          \<and> MarshalError js (DSlice (map DMap outs)) = None \<longrightarrow>
          fst (getRowsByKeyPrefix js s w r) = None
          \<and> StatusCode (fst (ServeHTTP js s POST_get_rows_by_key_prefix r)) = 200
          \<and> RespBody (fst (ServeHTTP js s POST_get_rows_by_key_prefix r)) =
              [Json (DSlice (map DMap outs))])"
proof -
  let ?over = "\<exists>outs rest. scans rows = map Inr outs @ rest \<and> int (length outs) = N + 1"
  let ?call = "CallGetRowsByKeyPrefix (index_vars (vars r) ''familyName'')
         (index_vars (vars r) ''tableName'') (keysToInterface (Key rr))"
  from pos have pos': "0 < N" by simp
  have only_if: ?over if "fst (getRowsByKeyPrefix js s w r) = Some (max_row_count_exceeded N)"
  proof -
    obtain res evs where l: "getRowsByKeyPrefix_loop N (scans rows) [] = (res, evs)"
      by (cases "getRowsByKeyPrefix_loop N (scans rows) []")
    from that mr dec rd l have "res = Inl (max_row_count_exceeded N)"
      by (auto simp: getRowsByKeyPrefix_def Let_def Encode_def max_row_count_exceeded_def
          split: sum.splits option.splits)
    with l have "fst (getRowsByKeyPrefix_loop N (scans rows) []) = Inl (max_row_count_exceeded N)"
      by simp
    from loop_limit_only_if [OF pos' _ this] pos' show ?thesis by simp
  qed
  have over: "getRowsByKeyPrefix js s w r =
      (Some (max_row_count_exceeded N), w,
       ?call # concat (replicate (nat N + 1) [RowsNext True, RowsScan])
       @ [RowsClose, Observe ''get-rows-by-key-prefix'' (UserAgent r)])" if ?over for w
  proof -
    from that obtain outs rest where
      o: "scans rows = map Inr outs @ rest" "int (length outs) = N + 1" by blast
    from o(2) pos' have len: "length outs = nat N + 1" by linarith
    from pos' o(2) have "getRowsByKeyPrefix_loop N (map Inr outs @ rest) [] =
        (Inl (max_row_count_exceeded N), concat (replicate (length outs) [RowsNext True, RowsScan]))"
      by (intro loop_limit_prefix) simp_all
    with mr dec rd o(1) len show ?thesis
      by (simp add: getRowsByKeyPrefix_def Let_def)
  qed
  have iff: "fst (getRowsByKeyPrefix js s w r) = Some (max_row_count_exceeded N) \<longleftrightarrow> ?over"
  proof
    assume "fst (getRowsByKeyPrefix js s w r) = Some (max_row_count_exceeded N)"
    then show ?over by (rule only_if)
  next
    assume ?over
    from over [OF this, of w] show "fst (getRowsByKeyPrefix js s w r) = Some (max_row_count_exceeded N)"
      by simp
  qed
  have msg: "Error (max_row_count_exceeded N) = ''max row count ('' @ itoa N @ '') exceeded''"
    by (simp add: max_row_count_exceeded_def)
  have dig: "decimal_value (itoa N) = nat N \<and> list_all isDigit (itoa N)"
    using pos by (intro itoa_decimal) simp
  have lim: "length (filter (\<lambda>ev. ev = RowsScan) (snd (snd (getRowsByKeyPrefix js s w r)))) = nat N + 1
          \<and> StatusCode (fst (ServeHTTP js s POST_get_rows_by_key_prefix r)) = 500
          \<and> RespBody (fst (ServeHTTP js s POST_get_rows_by_key_prefix r)) =
              [Text (''max row count ('' @ itoa N @ '') exceeded'' @ [CHR 0x0A])]" if ?over
    using length_filter_scan_pairs [of "nat N + 1"]
    by (simp add: over [OF that] ServeHTTP_def handleErr_def finish_http_Error_fresh
        max_row_count_exceeded_def)
  have good: "fst (getRowsByKeyPrefix js s w r) = None
          \<and> StatusCode (fst (ServeHTTP js s POST_get_rows_by_key_prefix r)) = 200
          \<and> RespBody (fst (ServeHTTP js s POST_get_rows_by_key_prefix r)) =
              [Json (DSlice (map DMap outs))]"
    if "scans rows = map Inr outs" "int (length outs) \<le> N" "iter_err rows = None"
      "MarshalError js (DSlice (map DMap outs)) = None" for outs
  proof -
    from that(2) mr have "\<not> (0 < maxRows s \<and> maxRows s < int (length outs))" by simp
    from getRowsByKeyPrefix_success [OF dec rd that(1) this that(3) that(4)]
    show ?thesis
      by (simp add: ServeHTTP_def handleErr_def finish_Write_fresh)
  qed
  from iff msg dig lim good show ?thesis by blast
qed

theorem row_limit_exceeded_iff_witness:
  "maxRows (fake_cursor_sidecar 2 \<lparr>scans = map Inr [fake_row 1, fake_row 2, fake_row 3], iter_err = None\<rparr>) = 2
   \<and> (1::int) \<le> 2
   \<and> Unmarshal stream_json (Body (fake_request ''{}'')) = Inr \<lparr>Key = []\<rparr>
   \<and> fst (getRowsByKeyPrefix stream_json
        (fake_cursor_sidecar 2 \<lparr>scans = map Inr [fake_row 1, fake_row 2, fake_row 3], iter_err = None\<rparr>)
        new_ResponseWriter (fake_request ''{}'')) = Some (Errorf ''max row count (2) exceeded'')
   \<and> length (filter (\<lambda>ev. ev = RowsScan) (snd (snd (getRowsByKeyPrefix stream_json
        (fake_cursor_sidecar 2 \<lparr>scans = map Inr [fake_row 1, fake_row 2, fake_row 3], iter_err = None\<rparr>)
        new_ResponseWriter (fake_request ''{}''))))) = 3
   \<and> RespBody (fst (ServeHTTP stream_json
        (fake_cursor_sidecar 2 \<lparr>scans = map Inr [fake_row 1, fake_row 2, fake_row 3], iter_err = None\<rparr>)
        POST_get_rows_by_key_prefix (fake_request ''{}''))) =
        [Text (''max row count (2) exceeded'' @ [CHR 0x0A])]
   \<and> fst (getRowsByKeyPrefix stream_json
        (fake_cursor_sidecar 2
           \<lparr>scans = map Inr [fake_row 1, fake_row 2, fake_row 3] @ [Inl ''bad column''], iter_err = None\<rparr>)
        new_ResponseWriter (fake_request ''{}'')) = Some (Errorf ''max row count (2) exceeded'')
   \<and> StatusCode (fst (ServeHTTP stream_json
        (fake_cursor_sidecar 2 \<lparr>scans = map Inr [fake_row 1, fake_row 2], iter_err = None\<rparr>)
        POST_get_rows_by_key_prefix (fake_request ''{}''))) = 200
   \<and> RespBody (fst (ServeHTTP stream_json
        (fake_cursor_sidecar 2 \<lparr>scans = map Inr [fake_row 1, fake_row 2], iter_err = None\<rparr>)
        POST_get_rows_by_key_prefix (fake_request ''{}''))) =
        [Json (DSlice [DMap (fake_row 1), DMap (fake_row 2)])]"
proof -
  let ?r = "fake_request ''{}''"
  let ?rr = "\<lparr>Key = []\<rparr> :: ReadRequest"
  let ?three = "\<lparr>scans = map Inr [fake_row 1, fake_row 2, fake_row 3], iter_err = None\<rparr>"
  let ?four = "\<lparr>scans = map Inr [fake_row 1, fake_row 2, fake_row 3] @ [Inl ''bad column''],
      iter_err = None\<rparr>"
  let ?two = "\<lparr>scans = map Inr [fake_row 1, fake_row 2], iter_err = None\<rparr>"
  have mr: "maxRows (fake_cursor_sidecar 2 rows) = 2" for rows
    by (simp add: fake_cursor_sidecar_def New_def)
  have pos: "(1::int) \<le> 2" by simp
  have dec: "Unmarshal stream_json (Body ?r) = Inr ?rr"
    by (simp add: fake_request_def stream_json_empty_object)
  have rd: "GetRowsByKeyPrefix (reader (fake_cursor_sidecar 2 rows))
        (index_vars (vars ?r) ''familyName'') (index_vars (vars ?r) ''tableName'')
        (keysToInterface (Key ?rr)) = Inr rows" for rows
    by (simp add: fake_cursor_sidecar_def New_def)
  have digits: "itoa 2 = ''2''"
    by (simp add: itoa_def utoa.simps)
  have over3: "\<exists>outs rest. scans ?three = map Inr outs @ rest \<and> int (length outs) = 2 + 1"
    by (intro exI [of _ "[fake_row 1, fake_row 2, fake_row 3]"] exI [of _ "[]"]) simp
  have over4: "\<exists>outs rest. scans ?four = map Inr outs @ rest \<and> int (length outs) = 2 + 1"
    by (intro exI [of _ "[fake_row 1, fake_row 2, fake_row 3]"] exI [of _ "[Inl ''bad column'']"]) simp
  have two: "scans ?two = map Inr [fake_row 1, fake_row 2] \<and> int (length [fake_row 1, fake_row 2]) \<le> 2
      \<and> iter_err ?two = None
      \<and> MarshalError stream_json (DSlice (map DMap [fake_row 1, fake_row 2])) = None"
    by (simp add: stream_json_def)
  note t3 = row_limit_exceeded_iff [OF mr pos dec rd, of ?three new_ResponseWriter]
  note t4 = row_limit_exceeded_iff [OF mr pos dec rd, of ?four new_ResponseWriter]
  note t2 = row_limit_exceeded_iff [OF mr pos dec rd, of ?two new_ResponseWriter]
  from t3 over3 have a: "fst (getRowsByKeyPrefix stream_json (fake_cursor_sidecar 2 ?three)
        new_ResponseWriter ?r) = Some (max_row_count_exceeded 2)
      \<and> length (filter (\<lambda>ev. ev = RowsScan) (snd (snd (getRowsByKeyPrefix stream_json
          (fake_cursor_sidecar 2 ?three) new_ResponseWriter ?r)))) = nat 2 + 1
      \<and> RespBody (fst (ServeHTTP stream_json (fake_cursor_sidecar 2 ?three)
          POST_get_rows_by_key_prefix ?r)) = [Text (''max row count ('' @ itoa 2 @ '') exceeded'' @ [CHR 0x0A])]"
    by blast
  from t4 over4 have b: "fst (getRowsByKeyPrefix stream_json (fake_cursor_sidecar 2 ?four)
        new_ResponseWriter ?r) = Some (max_row_count_exceeded 2)"
    by blast
  from t2 two have c: "StatusCode (fst (ServeHTTP stream_json (fake_cursor_sidecar 2 ?two)
          POST_get_rows_by_key_prefix ?r)) = 200
      \<and> RespBody (fst (ServeHTTP stream_json (fake_cursor_sidecar 2 ?two)
          POST_get_rows_by_key_prefix ?r)) = [Json (DSlice (map DMap [fake_row 1, fake_row 2]))]"
    by blast
  from a b c mr dec show ?thesis
    by (simp add: digits max_row_count_exceeded_def)
qed

text \<open>
  C10. With \<^verbatim>\<open>maxRows\<close> zero or negative the handler never returns the row-limit error
  (no error made by \<^verbatim>\<open>errors.Errorf\<close> at all), however many rows the cursor yields: the
  loop gathers every row of a cursor whose scans succeed.
\<close>

theorem no_row_limit_unless_maxRows_positive:
  assumes "maxRows s \<le> 0"
  shows "(\<forall>m. fst (getRowsByKeyPrefix js s w r) \<noteq> Some (Errorf m))
    \<and> (\<forall>n. fst (getRowsByKeyPrefix js s w r) \<noteq> Some (max_row_count_exceeded n))
    \<and> (\<forall>outs. fst (getRowsByKeyPrefix_loop (maxRows s) (map Inr outs) []) = Inr (map DMap outs))"
proof -
  have a: "fst (getRowsByKeyPrefix js s w r) \<noteq> Some (Errorf m)" for m
  proof (cases "Unmarshal js (Body r)")
    case (Inl e)
    then show ?thesis by (simp add: getRowsByKeyPrefix_def Let_def)
  next
    case (Inr rr)
    show ?thesis
    proof (cases "GetRowsByKeyPrefix (reader s) (index_vars (vars r) ''familyName'')
               (index_vars (vars r) ''tableName'') (keysToInterface (Key rr))")
      case (Inl e)
      with Inr show ?thesis by (simp add: getRowsByKeyPrefix_def Let_def)
    next
      case rows: (Inr rows)
      obtain res evs where l: "getRowsByKeyPrefix_loop (maxRows s) (scans rows) [] = (res, evs)"
        by (cases "getRowsByKeyPrefix_loop (maxRows s) (scans rows) []")
      from loop_not_Errorf [OF assms, of "scans rows" "[]" m] l have "res \<noteq> Inl (Errorf m)"
        by simp
      with Inr rows l show ?thesis
        by (auto simp: getRowsByKeyPrefix_def Let_def Encode_def
            split: sum.splits option.splits)
    qed
  qed
  have b: "fst (getRowsByKeyPrefix_loop (maxRows s) (map Inr outs) []) = Inr (map DMap outs)" for outs
    using assms loop_no_limit [of "maxRows s" "[]" outs] by simp
  from a b show ?thesis by (simp add: max_row_count_exceeded_def)
qed

theorem no_row_limit_unless_maxRows_positive_witness:
  "maxRows (fake_sidecar (- 1) True [fake_row 1, fake_row 2, fake_row 3] (Inr 0)) \<le> 0
   \<and> fst (getRowsByKeyPrefix fake_json (fake_sidecar (- 1) True [fake_row 1, fake_row 2, fake_row 3] (Inr 0))
        new_ResponseWriter (fake_request ''[a]'')) \<noteq> Some (max_row_count_exceeded (- 1))
   \<and> fst (getRowsByKeyPrefix_loop (maxRows (fake_sidecar (- 1) True [fake_row 1, fake_row 2, fake_row 3] (Inr 0)))
        (map Inr [fake_row 1, fake_row 2, fake_row 3]) [])
       = Inr [DMap (fake_row 1), DMap (fake_row 2), DMap (fake_row 3)]
   \<and> StatusCode (fst (ServeHTTP fake_json (fake_sidecar (- 1) True [fake_row 1, fake_row 2, fake_row 3] (Inr 0))
        POST_get_rows_by_key_prefix (fake_request ''[a]''))) = 200"
proof -
  let ?s = "fake_sidecar (- 1) True [fake_row 1, fake_row 2, fake_row 3] (Inr 0)"
  have mr: "maxRows ?s \<le> 0"
    by (simp add: fake_defs)
  have ok: "StatusCode (fst (ServeHTTP fake_json ?s POST_get_rows_by_key_prefix (fake_request ''[a]''))) = 200"
    by (simp add: fake_defs ServeHTTP_def handleErr_def getRowsByKeyPrefix_def Let_def Encode_def
        finish_Write_fresh)
  from no_row_limit_unless_maxRows_positive [OF mr, of fake_json new_ResponseWriter "fake_request ''[a]''"]
    mr ok
  show ?thesis by simp
qed

subsection \<open>The response is written last\<close>

text \<open>
  C5. A prefix scan ends in one of two ways, and which one is settled before anything is
  written. When the body decodes, the Reader hands out a cursor, every scan succeeds, the
  row ceiling is not exceeded, the cursor ends without an error and the list encodes, the
  handler returns no error and the one thing written is the JSON array of all the rows
  (possibly none), with status 200. In every other case (a decode error, a Reader error, a
  scan error, an iteration error, a row-limit violation, an encoding error) the handler
  returns an error and has written nothing: the response writer is as it was, and the
  response is status 500 with the error text alone.
\<close>

theorem scan_response_all_or_nothing:
  "(\<forall>rr rows outs.
      Unmarshal js (Body r) = Inr rr
      \<and> GetRowsByKeyPrefix (reader s) (index_vars (vars r) ''familyName'')
           (index_vars (vars r) ''tableName'') (keysToInterface (Key rr)) = Inr rows
      \<and> scans rows = map Inr outs
      \<and> \<not> (0 < maxRows s \<and> maxRows s < int (length outs))
      \<and> iter_err rows = None
      \<and> MarshalError js (DSlice (map DMap outs)) = None
      \<longrightarrow> fst (getRowsByKeyPrefix js s w r) = None
        \<and> fst (snd (getRowsByKeyPrefix js s w r)) = Write w (Json (DSlice (map DMap outs)))
        \<and> StatusCode (fst (ServeHTTP js s POST_get_rows_by_key_prefix r)) = 200
        \<and> RespBody (fst (ServeHTTP js s POST_get_rows_by_key_prefix r)) = [Json (DSlice (map DMap outs))])
   \<and> ((\<nexists>rr rows outs.
          Unmarshal js (Body r) = Inr rr
          \<and> GetRowsByKeyPrefix (reader s) (index_vars (vars r) ''familyName'')
               (index_vars (vars r) ''tableName'') (keysToInterface (Key rr)) = Inr rows
          \<and> scans rows = map Inr outs
          \<and> \<not> (0 < maxRows s \<and> maxRows s < int (length outs))
          \<and> iter_err rows = None
          \<and> MarshalError js (DSlice (map DMap outs)) = None)
      \<longrightarrow> (\<exists>e. fst (getRowsByKeyPrefix js s w r) = Some e
            \<and> fst (snd (getRowsByKeyPrefix js s w r)) = w
            \<and> StatusCode (fst (ServeHTTP js s POST_get_rows_by_key_prefix r)) = 500
            \<and> RespBody (fst (ServeHTTP js s POST_get_rows_by_key_prefix r)) = [Text (Error e @ [CHR 0x0A])]))"
proof (intro conjI allI impI)
  fix rr rows outs
  assume c: "Unmarshal js (Body r) = Inr rr
      \<and> GetRowsByKeyPrefix (reader s) (index_vars (vars r) ''familyName'')
           (index_vars (vars r) ''tableName'') (keysToInterface (Key rr)) = Inr rows
      \<and> scans rows = map Inr outs
      \<and> \<not> (0 < maxRows s \<and> maxRows s < int (length outs))
      \<and> iter_err rows = None
      \<and> MarshalError js (DSlice (map DMap outs)) = None"
  then have h: "getRowsByKeyPrefix js s w r =
      (None, Write w (Json (DSlice (map DMap outs))),
       CallGetRowsByKeyPrefix (index_vars (vars r) ''familyName'')
         (index_vars (vars r) ''tableName'') (keysToInterface (Key rr))
       # concat (replicate (length outs) [RowsNext True, RowsScan])
       @ [RowsNext False, RowsErr, RowsClose, Observe ''get-rows-by-key-prefix'' (UserAgent r)])" for w
    by (intro getRowsByKeyPrefix_success [where rows = rows]) blast+
  show "fst (getRowsByKeyPrefix js s w r) = None" by (simp add: h)
  show "fst (snd (getRowsByKeyPrefix js s w r)) = Write w (Json (DSlice (map DMap outs)))"
    by (simp add: h)
  show "StatusCode (fst (ServeHTTP js s POST_get_rows_by_key_prefix r)) = 200"
    by (simp add: h ServeHTTP_def handleErr_def finish_Write_fresh)
  show "RespBody (fst (ServeHTTP js s POST_get_rows_by_key_prefix r)) = [Json (DSlice (map DMap outs))]"
    by (simp add: h ServeHTTP_def handleErr_def finish_Write_fresh)
next
  assume none: "\<nexists>rr rows outs.
          Unmarshal js (Body r) = Inr rr
          \<and> GetRowsByKeyPrefix (reader s) (index_vars (vars r) ''familyName'')
               (index_vars (vars r) ''tableName'') (keysToInterface (Key rr)) = Inr rows
          \<and> scans rows = map Inr outs
          \<and> \<not> (0 < maxRows s \<and> maxRows s < int (length outs))
          \<and> iter_err rows = None
          \<and> MarshalError js (DSlice (map DMap outs)) = None"
  with getRowsByKeyPrefix_outcomes [of js s r]
  have "\<exists>e evs. \<forall>w. getRowsByKeyPrefix js s w r = (Some e, w, evs)" by blast
  then obtain e evs where h: "\<And>w. getRowsByKeyPrefix js s w r = (Some e, w, evs)" by blast
  show "\<exists>e. fst (getRowsByKeyPrefix js s w r) = Some e
            \<and> fst (snd (getRowsByKeyPrefix js s w r)) = w
            \<and> StatusCode (fst (ServeHTTP js s POST_get_rows_by_key_prefix r)) = 500
            \<and> RespBody (fst (ServeHTTP js s POST_get_rows_by_key_prefix r)) = [Text (Error e @ [CHR 0x0A])]"
    by (rule exI [of _ e]) (simp add: h ServeHTTP_def handleErr_def finish_http_Error_fresh)
qed

theorem scan_response_all_or_nothing_witness:
  "Unmarshal stream_json (Body (fake_request ''{}'')) = Inr \<lparr>Key = []\<rparr>
   \<and> StatusCode (fst (ServeHTTP stream_json (fake_cursor_sidecar 2 \<lparr>scans = [], iter_err = None\<rparr>)
        POST_get_rows_by_key_prefix (fake_request ''{}''))) = 200
   \<and> RespBody (fst (ServeHTTP stream_json (fake_cursor_sidecar 2 \<lparr>scans = [], iter_err = None\<rparr>)
        POST_get_rows_by_key_prefix (fake_request ''{}''))) = [Json (DSlice [])]
   \<and> RespBody (fst (ServeHTTP stream_json
        (fake_cursor_sidecar 2 \<lparr>scans = map Inr [fake_row 1, fake_row 2], iter_err = None\<rparr>)
        POST_get_rows_by_key_prefix (fake_request ''{}''))) =
        [Json (DSlice [DMap (fake_row 1), DMap (fake_row 2)])]
   \<and> fst (getRowsByKeyPrefix stream_json
        (fake_cursor_sidecar 2 \<lparr>scans = map Inr [fake_row 1, fake_row 2, fake_row 3], iter_err = None\<rparr>)
        new_ResponseWriter (fake_request ''{}'')) \<noteq> None
   \<and> fst (snd (getRowsByKeyPrefix stream_json
        (fake_cursor_sidecar 2 \<lparr>scans = map Inr [fake_row 1, fake_row 2, fake_row 3], iter_err = None\<rparr>)
        new_ResponseWriter (fake_request ''{}''))) = new_ResponseWriter
   \<and> StatusCode (fst (ServeHTTP stream_json
        (fake_cursor_sidecar 2 \<lparr>scans = map Inr [fake_row 1, fake_row 2, fake_row 3], iter_err = None\<rparr>)
        POST_get_rows_by_key_prefix (fake_request ''{}''))) = 500"
proof -
  let ?r = "fake_request ''{}''"
  let ?rr = "\<lparr>Key = []\<rparr> :: ReadRequest"
  let ?none = "\<lparr>scans = [], iter_err = None\<rparr> :: Rows"
  let ?two = "\<lparr>scans = map Inr [fake_row 1, fake_row 2], iter_err = None\<rparr>"
  let ?three = "\<lparr>scans = map Inr [fake_row 1, fake_row 2, fake_row 3], iter_err = None\<rparr>"
  have dec: "Unmarshal stream_json (Body ?r) = Inr ?rr"
    by (simp add: fake_request_def stream_json_empty_object)
  have rd: "GetRowsByKeyPrefix (reader (fake_cursor_sidecar 2 rows))
        (index_vars (vars ?r) ''familyName'') (index_vars (vars ?r) ''tableName'')
        (keysToInterface (Key ?rr)) = Inr rows" for rows
    by (simp add: fake_cursor_sidecar_def New_def)
  have mr: "maxRows (fake_cursor_sidecar 2 rows) = 2" for rows
    by (simp add: fake_cursor_sidecar_def New_def)
  have enc: "MarshalError stream_json v = None" for v
    by (simp add: stream_json_def)
  note t0 = scan_response_all_or_nothing
    [of stream_json ?r "fake_cursor_sidecar 2 ?none" new_ResponseWriter]
  note t2 = scan_response_all_or_nothing
    [of stream_json ?r "fake_cursor_sidecar 2 ?two" new_ResponseWriter]
  note t3 = scan_response_all_or_nothing
    [of stream_json ?r "fake_cursor_sidecar 2 ?three" new_ResponseWriter]
  from t0 dec rd [of ?none] mr enc
  have a: "StatusCode (fst (ServeHTTP stream_json (fake_cursor_sidecar 2 ?none)
        POST_get_rows_by_key_prefix ?r)) = 200
      \<and> RespBody (fst (ServeHTTP stream_json (fake_cursor_sidecar 2 ?none)
        POST_get_rows_by_key_prefix ?r)) = [Json (DSlice (map DMap []))]"
    by (elim conjE allE [of _ ?rr] allE [of _ ?none] allE [of _ "[]"]) simp
  from t2 dec rd [of ?two] mr enc
  have b: "RespBody (fst (ServeHTTP stream_json (fake_cursor_sidecar 2 ?two)
        POST_get_rows_by_key_prefix ?r)) = [Json (DSlice (map DMap [fake_row 1, fake_row 2]))]"
    by (elim conjE allE [of _ ?rr] allE [of _ ?two] allE [of _ "[fake_row 1, fake_row 2]"]) simp
  have no: "\<nexists>rr rows outs.
          Unmarshal stream_json (Body ?r) = Inr rr
          \<and> GetRowsByKeyPrefix (reader (fake_cursor_sidecar 2 ?three)) (index_vars (vars ?r) ''familyName'')
               (index_vars (vars ?r) ''tableName'') (keysToInterface (Key rr)) = Inr rows
          \<and> scans rows = map Inr outs
          \<and> \<not> (0 < maxRows (fake_cursor_sidecar 2 ?three) \<and> maxRows (fake_cursor_sidecar 2 ?three) < int (length outs))
          \<and> iter_err rows = None
          \<and> MarshalError stream_json (DSlice (map DMap outs)) = None"
    by (auto simp: fake_cursor_sidecar_def New_def inj_map_eq_map [OF inj_Inr, symmetric]
        simp del: list.map)
  from t3 no
  have c: "\<exists>e. fst (getRowsByKeyPrefix stream_json (fake_cursor_sidecar 2 ?three) new_ResponseWriter ?r) = Some e
      \<and> fst (snd (getRowsByKeyPrefix stream_json (fake_cursor_sidecar 2 ?three) new_ResponseWriter ?r))
          = new_ResponseWriter
      \<and> StatusCode (fst (ServeHTTP stream_json (fake_cursor_sidecar 2 ?three)
          POST_get_rows_by_key_prefix ?r)) = 500"
    by blast
  from a b c dec show ?thesis by auto
qed

subsection \<open>The cursor is closed\<close>

text \<open>
  C6. Once the body has decoded and the Reader has handed out a cursor, the handler's
  events hold \<^verbatim>\<open>Close\<close> exactly once, whatever the cursor does afterwards (rows to the
  end, a failing scan, an iteration error, the row ceiling) and whatever the encoder
  does: it is the last event but for the latency observation, so it comes after every
  other use of the cursor and before the handler returns.
\<close>

theorem rows_closed_exactly_once:
  assumes dec: "Unmarshal js (Body r) = Inr rr"
    and rd: "GetRowsByKeyPrefix (reader s) (index_vars (vars r) ''familyName'')
               (index_vars (vars r) ''tableName'') (keysToInterface (Key rr)) = Inr rows"
  shows "length (filter (\<lambda>ev. ev = RowsClose) (snd (snd (getRowsByKeyPrefix js s w r)))) = 1
    \<and> (\<exists>pre. snd (snd (getRowsByKeyPrefix js s w r)) =
                pre @ [RowsClose, Observe ''get-rows-by-key-prefix'' (UserAgent r)]
              \<and> RowsClose \<notin> set pre)"
proof -
  obtain res evs where l: "getRowsByKeyPrefix_loop (maxRows s) (scans rows) [] = (res, evs)"
    by (cases "getRowsByKeyPrefix_loop (maxRows s) (scans rows) []")
  from loop_no_close [of "maxRows s" "scans rows" "[]"] l have nc: "RowsClose \<notin> set evs"
    by simp
  let ?call = "CallGetRowsByKeyPrefix (index_vars (vars r) ''familyName'')
      (index_vars (vars r) ''tableName'') (keysToInterface (Key rr))"
  let ?tail = "[RowsClose, Observe ''get-rows-by-key-prefix'' (UserAgent r)]"
  have "snd (snd (getRowsByKeyPrefix js s w r)) = (?call # evs) @ ?tail
      \<or> snd (snd (getRowsByKeyPrefix js s w r)) = (?call # evs @ [RowsErr]) @ ?tail"
    using dec rd l
    by (simp add: getRowsByKeyPrefix_def Let_def case_prod_beta split: sum.splits option.splits)
  then show ?thesis
  proof
    assume e: "snd (snd (getRowsByKeyPrefix js s w r)) = (?call # evs) @ ?tail"
    have "RowsClose \<notin> set (?call # evs)" using nc by simp
    with e show ?thesis
      by (intro conjI exI [of _ "?call # evs"]) (auto simp: filter_empty_conv)
  next
    assume e: "snd (snd (getRowsByKeyPrefix js s w r)) = (?call # evs @ [RowsErr]) @ ?tail"
    have "RowsClose \<notin> set (?call # evs @ [RowsErr])" using nc by simp
    with e show ?thesis
      by (intro conjI exI [of _ "?call # evs @ [RowsErr]"]) (auto simp: filter_empty_conv)
  qed
qed

theorem rows_closed_exactly_once_witness:
  "Unmarshal fake_json (Body (fake_request ''[a]'')) = Inr \<lparr>Key = [\<lparr>Value = DStr ''a'', Binary = None\<rparr>]\<rparr>
   \<and> GetRowsByKeyPrefix (reader (fake_sidecar 1 True [fake_row 1, fake_row 2] (Inr 0)))
        ''f'' ''t'' [DStr ''a''] = Inr \<lparr>scans = map Inr [fake_row 1, fake_row 2], iter_err = None\<rparr>
   \<and> length (filter (\<lambda>ev. ev = RowsClose)
        (snd (snd (getRowsByKeyPrefix fake_json (fake_sidecar 1 True [fake_row 1, fake_row 2] (Inr 0))
           new_ResponseWriter (fake_request ''[a]''))))) = 1
   \<and> snd (snd (getRowsByKeyPrefix fake_json (fake_sidecar 1 True [fake_row 1, fake_row 2] (Inr 0))
        new_ResponseWriter (fake_request ''[a]''))) =
      [CallGetRowsByKeyPrefix ''f'' ''t'' [DStr ''a''], RowsNext True, RowsScan, RowsNext True, RowsScan,
       RowsClose, Observe ''get-rows-by-key-prefix'' ''test'']"
proof -
  let ?r = "fake_request ''[a]''"
  let ?s = "fake_sidecar 1 True [fake_row 1, fake_row 2] (Inr 0)"
  let ?rr = "\<lparr>Key = [\<lparr>Value = DStr ''a'', Binary = None\<rparr>]\<rparr>"
  have dec: "Unmarshal fake_json (Body ?r) = Inr ?rr"
    by (simp add: fake_defs)
  have rd: "GetRowsByKeyPrefix (reader ?s) (index_vars (vars ?r) ''familyName'')
      (index_vars (vars ?r) ''tableName'') (keysToInterface (Key ?rr))
      = Inr \<lparr>scans = map Inr [fake_row 1, fake_row 2], iter_err = None\<rparr>"
    by (simp add: fake_defs)
  have evs: "snd (snd (getRowsByKeyPrefix fake_json ?s new_ResponseWriter ?r)) =
      [CallGetRowsByKeyPrefix ''f'' ''t'' [DStr ''a''], RowsNext True, RowsScan, RowsNext True, RowsScan,
       RowsClose, Observe ''get-rows-by-key-prefix'' ''test'']"
    by (simp add: fake_defs getRowsByKeyPrefix_def Let_def)
  from rows_closed_exactly_once [OF dec rd, of new_ResponseWriter] dec rd evs show ?thesis
    by (simp add: fake_defs)
qed

end
